theory Spec2Isabelle
  imports Complex_Main "HOL-Library.AList" "HOL-Library.Multiset"
begin

section \<open>JavaScript strings\<close>

text \<open>
  A JavaScript string is a sequence of UTF-16 code units, and \<^verbatim>\<open>length\<close>,
  \<^verbatim>\<open>includes\<close>, \<^verbatim>\<open>split\<close> and the regular expressions of
  \<^verbatim>\<open>search.js\<close> (none has the \<^verbatim>\<open>u\<close> flag) all work on code units. A code
  unit is modelled by its number (an integer from 0 to 65535), so that one Cyrillic letter
  is one element, as in the source. ASCII literals are written \<open>lit ''...''\<close>.
\<close>

type_synonym jschar = int
type_synonym jsstring = "jschar list"

definition lit :: "string \<Rightarrow> jsstring" where
  "lit s = map of_char s"

text \<open>
  \<^verbatim>\<open>String.prototype.toLowerCase\<close>, code unit by code unit. The table holds Basic
  Latin, the Cyrillic capitals U+0400 to U+042F, the Kelvin sign U+212A (lower case
  \<^verbatim>\<open>k\<close>) and U+0130, whose lower case is the two code units \<^verbatim>\<open>i\<close> and U+0307:
  these are all the code units whose lower case contains a code unit that the tokenizer
  below keeps. Every other code unit is returned as it is; the lower case JavaScript gives
  it is likewise not kept by the tokenizer.
\<close>

definition lowerUnits :: "jschar \<Rightarrow> jsstring" where
  "lowerUnits c =
     (if 65 \<le> c \<and> c \<le> 90 then [c + 32]
      else if 1024 \<le> c \<and> c \<le> 1039 then [c + 80]
      else if 1040 \<le> c \<and> c \<le> 1071 then [c + 32]
      else if c = 8490 then [107]
      else if c = 304 then [105, 775]
      else [c])"

definition toLowerCase :: "jsstring \<Rightarrow> jsstring" where
  "toLowerCase s = concat (map lowerUnits s)"

text \<open>
  \<^verbatim>\<open>String.prototype.toUpperCase\<close>, used only to look a category up by its key. The
  table holds Basic Latin, the Cyrillic small letters U+0430 to U+045F, and the code units
  above 127 whose upper case can be part of a category key: U+017F (\<^verbatim>\<open>S\<close>),
  U+0131 (\<^verbatim>\<open>I\<close>) and the ligatures U+FB05 and U+FB06 (\<^verbatim>\<open>ST\<close>). Every other
  code unit is returned as it is; whatever JavaScript makes of it, the result is no key.
\<close>

definition upperUnits :: "jschar \<Rightarrow> jsstring" where
  "upperUnits c =
     (if 97 \<le> c \<and> c \<le> 122 then [c - 32]
      else if 1072 \<le> c \<and> c \<le> 1103 then [c - 32]
      else if 1104 \<le> c \<and> c \<le> 1119 then [c - 80]
      else if c = 383 then [83]
      else if c = 305 then [73]
      else if c = 64261 \<or> c = 64262 then [83, 84]
      else [c])"

definition toUpperCase :: "jsstring \<Rightarrow> jsstring" where
  "toUpperCase s = concat (map upperUnits s)"

text \<open>\<^verbatim>\<open>String.prototype.startsWith\<close> and \<^verbatim>\<open>String.prototype.includes\<close>.\<close>

fun startsWith :: "jsstring \<Rightarrow> jsstring \<Rightarrow> bool" where
  "startsWith s [] = True"
| "startsWith [] (c # w) = False"
| "startsWith (d # s) (c # w) = (d = c \<and> startsWith s w)"

fun includes_str :: "jsstring \<Rightarrow> jsstring \<Rightarrow> bool" where
  "includes_str [] w = (w = [])"
| "includes_str (d # s) w = (startsWith (d # s) w \<or> includes_str s w)"

text \<open>
  The character classes of the regular expressions: \<^verbatim>\<open>\s\<close> (white space and line
  terminators of ECMAScript), \<^verbatim>\<open>\w\<close> (\<^verbatim>\<open>[A-Za-z0-9_]\<close>) and the class
  \<^verbatim>\<open>[\w\s\u0430-\u044f\u0451]\<close> of \<^verbatim>\<open>extractWords\<close> (written with the
  Cyrillic letters themselves in the source). Its \<^verbatim>\<open>i\<close> flag, without the
  \<^verbatim>\<open>u\<close> flag, compares code units by their upper case: it also admits the
  upper-case counterparts U+0410 to U+042F and U+0401 of the Cyrillic members, and the
  historic small letters U+1C80 to U+1C86, whose upper case lies in U+0410 to U+042F. A
  code unit above 127 whose upper case is a Basic Latin letter is not admitted.
\<close>

definition isSpace :: "jschar \<Rightarrow> bool" where
  "isSpace c =
     ((9 \<le> c \<and> c \<le> 13) \<or> c = 32 \<or> c = 160 \<or> c = 5760 \<or> (8192 \<le> c \<and> c \<le> 8202)
      \<or> c = 8232 \<or> c = 8233 \<or> c = 8239 \<or> c = 8287 \<or> c = 12288 \<or> c = 65279)"

definition isWordChar :: "jschar \<Rightarrow> bool" where
  "isWordChar c =
     ((48 \<le> c \<and> c \<le> 57) \<or> (65 \<le> c \<and> c \<le> 90) \<or> c = 95 \<or> (97 \<le> c \<and> c \<le> 122))"

definition keptChar :: "jschar \<Rightarrow> bool" where
  "keptChar c =
     (isWordChar c \<or> isSpace c \<or> (1072 \<le> c \<and> c \<le> 1103) \<or> c = 1105
      \<or> (1040 \<le> c \<and> c \<le> 1071) \<or> c = 1025 \<or> (7296 \<le> c \<and> c \<le> 7302))"

text \<open>
  \<^verbatim>\<open>.replace(/[^\w\s\u0430-\u044f\u0451]/gi, ' ')\<close>: every other code unit becomes a
  space.
\<close>

definition replacePunct :: "jsstring \<Rightarrow> jsstring" where
  "replacePunct s = map (\<lambda>c. if keptChar c then c else 32) s"

text \<open>
  \<^verbatim>\<open>.split(/\s+/)\<close>: the pieces between maximal runs of white space. As in
  JavaScript, a string that starts or ends with white space gives an empty first or last
  piece, and the empty string gives one empty piece. A white-space code unit followed by
  another one belongs to the same separator; the last one of a run closes a piece.
\<close>

fun splitSpaces :: "jsstring \<Rightarrow> jsstring list" where
  "splitSpaces [] = [[]]"
| "splitSpaces (c # cs) =
     (if isSpace c
      then (if (case cs of [] \<Rightarrow> False | d # _ \<Rightarrow> isSpace d)
            then splitSpaces cs else [] # splitSpaces cs)
      else (case splitSpaces cs of [] \<Rightarrow> [[c]] | p # ps \<Rightarrow> (c # p) # ps))"

text \<open>\<^verbatim>\<open>extractWords(text)\<close>, search.js lines 195 to 201.\<close>

definition extractWords :: "jsstring \<Rightarrow> jsstring list" where
  "extractWords text =
     filter (\<lambda>word. 2 \<le> length word) (splitSpaces (replacePunct (toLowerCase text)))"

text \<open>\<^verbatim>\<open>Array.prototype.join\<close> on an array of strings.\<close>

fun joinWith :: "jsstring \<Rightarrow> jsstring list \<Rightarrow> jsstring" where
  "joinWith sep [] = []"
| "joinWith sep [x] = x"
| "joinWith sep (x # y # ys) = x @ sep @ joinWith sep (y # ys)"

text \<open>
  \<^verbatim>\<open>.replace(/<[^>]*>/g, '')\<close>: from each \<^verbatim>\<open><\<close> that has a later
  \<^verbatim>\<open>>\<close>, everything up to and including the first such \<^verbatim>\<open>>\<close> is removed.
  The flag of \<open>stripFrom\<close> says whether the scan is inside such a match.
\<close>

fun stripFrom :: "bool \<Rightarrow> jsstring \<Rightarrow> jsstring" where
  "stripFrom inTag [] = []"
| "stripFrom True (c # cs) = (if c = 62 then stripFrom False cs else stripFrom True cs)"
| "stripFrom False (c # cs) =
     (if c = 60 \<and> 62 \<in> set cs then stripFrom True cs else c # stripFrom False cs)"

definition stripTags :: "jsstring \<Rightarrow> jsstring" where
  "stripTags s = stripFrom False s"

text \<open>
  \<^verbatim>\<open>Array.prototype.sort(compare)\<close>. Both comparators of the module are consistent
  (each orders by a key), so the result is the stable sort: an element goes before the
  first later element it does not compare greater than.
\<close>

fun insertBy :: "('a \<Rightarrow> 'a \<Rightarrow> rat) \<Rightarrow> 'a \<Rightarrow> 'a list \<Rightarrow> 'a list" where
  "insertBy cmp x [] = [x]"
| "insertBy cmp x (y # ys) = (if cmp x y \<le> 0 then x # y # ys else y # insertBy cmp x ys)"

definition sortBy :: "('a \<Rightarrow> 'a \<Rightarrow> rat) \<Rightarrow> 'a list \<Rightarrow> 'a list" where
  "sortBy cmp xs = foldr (insertBy cmp) xs []"

text \<open>
  A JavaScript \<^verbatim>\<open>Map\<close> with string keys is an association list in insertion order:
  \<^verbatim>\<open>has\<close> and \<^verbatim>\<open>get\<close> are \<^const>\<open>map_of\<close>, \<^verbatim>\<open>set\<close> is
  \<^const>\<open>AList.update\<close> (a new key goes to the end, an old key keeps its place), and a
  mutation of the stored array or object is \<^const>\<open>AList.map_entry\<close>.
\<close>

section \<open>Documents, postings and the state of the SearchManager\<close>

datatype article_status = Draft | Pending | Published | Archived

record article =
  art_id :: jsstring
  title :: jsstring
  lead :: jsstring
  content :: jsstring
  tags :: "jsstring list"
  category :: "jsstring option"
  status :: article_status
  publishedAt :: "jsstring option"

record user =
  user_id :: jsstring
  firstName :: jsstring
  lastName :: jsstring
  role :: jsstring
  bio :: "jsstring option"

text \<open>
  The objects pushed by \<^verbatim>\<open>indexArticle\<close> and \<^verbatim>\<open>indexUser\<close>. Their
  \<^verbatim>\<open>type\<close> field is the string \<^verbatim>\<open>'article'\<close> or \<^verbatim>\<open>'author'\<close>.
\<close>

datatype posting =
  ArticlePosting (p_id: jsstring) (p_title: jsstring) (p_lead: jsstring)
    (p_category: "jsstring option") (p_publishedAt: "jsstring option") (relevance: nat)
| AuthorPosting (p_id: jsstring) (p_name: jsstring) (p_role: jsstring)
    (p_bio: "jsstring option") (relevance: nat)

fun p_type :: "posting \<Rightarrow> jsstring" where
  "p_type (ArticlePosting i t l c d r) = lit ''article''"
| "p_type (AuthorPosting i n ro b r) = lit ''author''"

type_synonym search_index = "(jsstring \<times> posting list) list"

datatype suggestion_type = Term | Category | Tag

record suggestion =
  s_type :: suggestion_type
  s_text :: jsstring
  s_icon :: jsstring
  s_count :: "nat option"

record history_item =
  h_query :: jsstring
  resultsCount :: nat
  timestamp :: jsstring

record search_manager =
  searchHistory :: "history_item list"
  searchSuggestions :: "suggestion list"
  searchIndex :: search_index

text \<open>\<^verbatim>\<open>MediaPortal.CATEGORIES\<close> of utils.js: key, then id, name and icon.\<close>

record category_info =
  c_id :: jsstring
  c_name :: jsstring
  c_icon :: jsstring

definition CATEGORIES :: "(jsstring \<times> category_info) list" where
  "CATEGORIES =
     [(lit ''REPORTAGE'', \<lparr>c_id = lit ''reportage'',
         c_name = [1056, 1077, 1087, 1086, 1088, 1090, 1072, 1078],
         c_icon = lit ''fas fa-camera''\<rparr>),
      (lit ''INTERVIEW'', \<lparr>c_id = lit ''interview'',
         c_name = [1048, 1085, 1090, 1077, 1088, 1074, 1100, 1102],
         c_icon = lit ''fas fa-microphone''\<rparr>),
      (lit ''OPINION'', \<lparr>c_id = lit ''opinion'',
         c_name = [1052, 1085, 1077, 1085, 1080, 1077],
         c_icon = lit ''fas fa-comment-alt''\<rparr>),
      (lit ''PHOTOPROJECT'', \<lparr>c_id = lit ''photoproject'',
         c_name = [1060, 1086, 1090, 1086, 1087, 1088, 1086, 1077, 1082, 1090],
         c_icon = lit ''fas fa-images''\<rparr>),
      (lit ''PODCAST'', \<lparr>c_id = lit ''podcast'',
         c_name = [1055, 1086, 1076, 1082, 1072, 1089, 1090, 1099],
         c_icon = lit ''fas fa-podcast''\<rparr>),
      (lit ''NEWS'', \<lparr>c_id = lit ''news'',
         c_name = [1053, 1086, 1074, 1086, 1089, 1090, 1080],
         c_icon = lit ''fas fa-newspaper''\<rparr>)]"

section \<open>Building the index\<close>

text \<open>
  \<^verbatim>\<open>if (!this.searchIndex.has(word)) this.searchIndex.set(word, []);
  this.searchIndex.get(word).push(p)\<close>, the body of the loops of \<^verbatim>\<open>indexArticle\<close>
  and \<^verbatim>\<open>indexUser\<close>.
\<close>

definition pushPosting :: "jsstring \<Rightarrow> posting \<Rightarrow> search_index \<Rightarrow> search_index" where
  "pushPosting word p idx =
     AList.map_entry word (\<lambda>ps. ps @ [p])
       (if map_of idx word = None then AList.update word [] idx else idx)"

text \<open>
  \<^verbatim>\<open>calculateWordRelevance(word, article)\<close>, search.js lines 203 to 222. Its only
  caller, \<^verbatim>\<open>indexArticle\<close>, passes a token as \<open>word\<close>, and a token is found in a lower-cased string inside a
  run of code units that the tokenizer keeps; the table \<open>toLowerCase\<close> gives these runs
  as JavaScript does, so that it stands for \<^verbatim>\<open>String.prototype.toLowerCase\<close> here.
\<close>

definition calculateWordRelevance :: "jsstring \<Rightarrow> article \<Rightarrow> nat" where
  "calculateWordRelevance word a =
     1 + (if includes_str (toLowerCase (title a)) word then 3 else 0)
       + (if includes_str (toLowerCase (lead a)) word then 2 else 0)
       + (if list_ex (\<lambda>tag. includes_str (toLowerCase tag) word) (tags a) then 2 else 0)"

text \<open>
  \<^verbatim>\<open>MediaPortal.CATEGORIES[article.category?.toUpperCase()]?.name || article.category\<close>;
  an undefined category is joined as the empty string.
\<close>

definition categoryLabel :: "article \<Rightarrow> jsstring" where
  "categoryLabel a =
     (case category a of
        None \<Rightarrow> []
      | Some c \<Rightarrow>
          (case map_of CATEGORIES (toUpperCase c) of
             None \<Rightarrow> c
           | Some info \<Rightarrow> if c_name info = [] then c else c_name info))"

definition articleText :: "article \<Rightarrow> jsstring" where
  "articleText a =
     toLowerCase (joinWith [32]
       ([title a, lead a, stripTags (content a)] @ tags a @ [categoryLabel a]))"

definition articlePosting :: "article \<Rightarrow> jsstring \<Rightarrow> posting" where
  "articlePosting a word =
     ArticlePosting (art_id a) (title a) (lead a) (category a) (publishedAt a)
       (calculateWordRelevance word a)"

text \<open>\<^verbatim>\<open>indexArticle(article)\<close>, search.js lines 142 to 168.\<close>

definition indexArticle :: "search_index \<Rightarrow> article \<Rightarrow> search_index" where
  "indexArticle idx a =
     foldl (\<lambda>i word. pushPosting word (articlePosting a word) i) idx
       (extractWords (articleText a))"

definition userText :: "user \<Rightarrow> jsstring" where
  "userText u =
     toLowerCase (joinWith [32]
       [firstName u, lastName u, (case bio u of None \<Rightarrow> [] | Some b \<Rightarrow> b)])"

definition userPosting :: "user \<Rightarrow> posting" where
  "userPosting u =
     AuthorPosting (user_id u) (firstName u @ [32] @ lastName u) (role u) (bio u) 1"

text \<open>\<^verbatim>\<open>indexUser(user)\<close>, search.js lines 170 to 193.\<close>

definition indexUser :: "search_index \<Rightarrow> user \<Rightarrow> search_index" where
  "indexUser idx u =
     foldl (\<lambda>i word. pushPosting word (userPosting u) i) idx (extractWords (userText u))"

section \<open>Suggestions\<close>

text \<open>\<^verbatim>\<open>counts.set(w, (counts.get(w) || 0) + 1)\<close>, used for terms and for tags.\<close>

definition countWord :: "(jsstring \<times> nat) list \<Rightarrow> jsstring \<Rightarrow> (jsstring \<times> nat) list" where
  "countWord counts w =
     AList.update w ((case map_of counts w of None \<Rightarrow> 0 | Some n \<Rightarrow> n) + 1) counts"

text \<open>The comparator \<^verbatim>\<open>(a, b) => b[1] - a[1]\<close> on the entries of a count map.\<close>

definition byCountDesc :: "jsstring \<times> nat \<Rightarrow> jsstring \<times> nat \<Rightarrow> rat" where
  "byCountDesc a b = of_nat (snd b) - of_nat (snd a)"

text \<open>\<^verbatim>\<open>getPopularSearchTerms()\<close>, search.js lines 251 to 271.\<close>

definition getPopularSearchTerms :: "history_item list \<Rightarrow> suggestion list" where
  "getPopularSearchTerms history =
     map (\<lambda>(term, n). \<lparr>s_type = Term, s_text = term, s_icon = lit ''fas fa-search'',
                         s_count = Some n\<rparr>)
       (take 10 (sortBy byCountDesc
          (foldl (\<lambda>counts item. foldl countWord counts (extractWords (h_query item)))
             [] history)))"

text \<open>
  The functions below that lower-case a string which is not tokenized afterwards (a tag,
  the text of a suggestion, the prefix typed) take the engine's
  \<^verbatim>\<open>String.prototype.toLowerCase\<close> as their first argument \<open>lc\<close>: its Unicode
  tables are not part of the repository, and the table \<open>toLowerCase\<close> above is complete
  for the tokenizer only. On strings of Basic Latin and Cyrillic letters \<open>toLowerCase\<close>
  is that function.
\<close>

text \<open>\<^verbatim>\<open>getPopularTags()\<close>, search.js lines 273 to 289.\<close>

definition getPopularTags :: "(jsstring \<Rightarrow> jsstring) \<Rightarrow> article list \<Rightarrow> jsstring list" where
  "getPopularTags lc arts =
     map fst (take 5 (sortBy byCountDesc
       (foldl (\<lambda>counts a.
                 if status a = Published
                 then foldl (\<lambda>cs tag. countWord cs (lc tag)) counts (tags a)
                 else counts)
          [] arts)))"

text \<open>\<^verbatim>\<open>buildSuggestions()\<close>, search.js lines 224 to 249.\<close>

definition buildSuggestions ::
  "(jsstring \<Rightarrow> jsstring) \<Rightarrow> history_item list \<Rightarrow> article list \<Rightarrow> suggestion list" where
  "buildSuggestions lc history arts =
     getPopularSearchTerms history
     @ map (\<lambda>(key, info). \<lparr>s_type = Category, s_text = c_name info, s_icon = c_icon info,
                              s_count = None\<rparr>) CATEGORIES
     @ map (\<lambda>tag. \<lparr>s_type = Tag, s_text = tag, s_icon = lit ''fas fa-tag'', s_count = None\<rparr>)
         (getPopularTags lc arts)"

text \<open>
  \<^verbatim>\<open>buildSearchIndex()\<close>, search.js lines 121 to 140. The articles of
  \<^verbatim>\<open>articleManager\<close> and the users of \<^verbatim>\<open>authManager.getAllUsers()\<close> are the
  arguments (the empty list when the manager is missing).
\<close>

definition buildSearchIndex ::
  "(jsstring \<Rightarrow> jsstring) \<Rightarrow> search_manager \<Rightarrow> article list \<Rightarrow> user list \<Rightarrow> search_manager" where
  "buildSearchIndex lc st arts users =
     st\<lparr>searchIndex :=
          foldl indexUser
            (foldl (\<lambda>idx a. if status a = Published then indexArticle idx a else idx) [] arts)
            users,
        searchSuggestions := buildSuggestions lc (searchHistory st) arts\<rparr>"

text \<open>The state the constructor sets up before \<^verbatim>\<open>init()\<close> has built anything.\<close>

definition newManager :: "history_item list \<Rightarrow> search_manager" where
  "newManager history =
     \<lparr>searchHistory = history, searchSuggestions = [], searchIndex = []\<rparr>"

text \<open>The comparator of \<^verbatim>\<open>getSuggestions\<close>, search.js lines 501 to 512.\<close>

definition typePriority :: "suggestion_type \<Rightarrow> rat" where
  "typePriority t = (case t of Term \<Rightarrow> 3 | Category \<Rightarrow> 2 | Tag \<Rightarrow> 1)"

definition compareSuggestions ::
  "(jsstring \<Rightarrow> jsstring) \<Rightarrow> jsstring \<Rightarrow> suggestion \<Rightarrow> suggestion \<Rightarrow> rat" where
  "compareSuggestions lc queryLower a b =
     (let aExact = startsWith (lc (s_text a)) queryLower;
          bExact = startsWith (lc (s_text b)) queryLower
      in if aExact \<and> \<not> bExact then - 1
         else if \<not> aExact \<and> bExact then 1
         else typePriority (s_type b) - typePriority (s_type a))"

text \<open>\<^verbatim>\<open>getSuggestions(query)\<close>, search.js lines 495 to 513.\<close>

definition getSuggestions ::
  "(jsstring \<Rightarrow> jsstring) \<Rightarrow> search_manager \<Rightarrow> jsstring \<Rightarrow> suggestion list" where
  "getSuggestions lc st query =
     (let queryLower = lc query
      in sortBy (compareSuggestions lc queryLower)
           (take 8 (filter (\<lambda>s. includes_str (lc (s_text s)) queryLower)
              (searchSuggestions st))))"

section \<open>Searching\<close>

text \<open>
  An entry of \<^verbatim>\<open>resultMap\<close>: the copy \<^verbatim>\<open>{ ...result, score }\<close> of the first
  posting met for the document, and its score. Relevances are integers and a partial match
  adds half of one, so every score is a multiple of one half, which JavaScript numbers
  add exactly; scores are rationals here.
\<close>

record result_entry =
  doc :: posting
  score :: rat

type_synonym result_map = "(jsstring \<times> result_entry) list"

record search_results =
  articles :: "result_entry list"
  authors :: "result_entry list"
  total :: nat
  query :: "jsstring option"

text \<open>The key \<^verbatim>\<open>`${result.type}-${result.id}`\<close>.\<close>

definition resultKey :: "posting \<Rightarrow> jsstring" where
  "resultKey p = p_type p @ lit ''-'' @ p_id p"

text \<open>
  \<^verbatim>\<open>if (!resultMap.has(key)) resultMap.set(key, { ...result, score: 0 });
  resultMap.get(key).score += delta\<close>.
\<close>

definition addScore :: "rat \<Rightarrow> result_map \<Rightarrow> posting \<Rightarrow> result_map" where
  "addScore delta rm result =
     (let key = resultKey result
      in AList.map_entry key (\<lambda>e. e\<lparr>score := score e + delta\<rparr>)
           (if map_of rm key = None
            then AList.update key \<lparr>doc = result, score = 0\<rparr> rm else rm))"

text \<open>The exact lookup of one query word, search.js lines 313 to 321.\<close>

definition exactMatches :: "search_index \<Rightarrow> jsstring \<Rightarrow> result_map \<Rightarrow> result_map" where
  "exactMatches idx word rm =
     (case map_of idx word of
        None \<Rightarrow> rm
      | Some results \<Rightarrow> foldl (\<lambda>m result. addScore (of_nat (relevance result)) m result) rm results)"

text \<open>The partial lookup of one query word, search.js lines 324 to 334.\<close>

definition partialMatches :: "search_index \<Rightarrow> jsstring \<Rightarrow> result_map \<Rightarrow> result_map" where
  "partialMatches idx word rm =
     foldl (\<lambda>m (indexWord, results).
              if includes_str indexWord word \<and> indexWord \<noteq> word
              then foldl (\<lambda>m' result. addScore (of_nat (relevance result) * (1 / 2)) m' result)
                     m results
              else m)
       rm idx"

definition collectResults :: "search_index \<Rightarrow> jsstring list \<Rightarrow> result_map" where
  "collectResults idx queryWords =
     foldl (\<lambda>rm word. partialMatches idx word (exactMatches idx word rm)) [] queryWords"

definition byScoreDesc :: "result_entry \<Rightarrow> result_entry \<Rightarrow> rat" where
  "byScoreDesc a b = score b - score a"

text \<open>\<^verbatim>\<open>searchInIndex(query)\<close>, search.js lines 307 to 357.\<close>

definition searchInIndex :: "search_index \<Rightarrow> jsstring \<Rightarrow> search_results" where
  "searchInIndex idx q =
     (let sorted = sortBy byScoreDesc (map snd (collectResults idx (extractWords q)));
          arts = filter (\<lambda>r. p_type (doc r) = lit ''article'') sorted;
          auts = filter (\<lambda>r. p_type (doc r) \<noteq> lit ''article'' \<and> p_type (doc r) = lit ''author'')
                   sorted
      in \<lparr>articles = take 20 arts, authors = take 10 auts,
          total = length arts + length auts, query = Some q\<rparr>)"

text \<open>
  \<^verbatim>\<open>addToSearchHistory(query, resultsCount)\<close> with \<^verbatim>\<open>saveSearchHistory()\<close>,
  search.js lines 749 to 769; \<open>now\<close> is the time stamp read from the clock.
\<close>

definition addToSearchHistory ::
  "search_manager \<Rightarrow> jsstring \<Rightarrow> nat \<Rightarrow> jsstring \<Rightarrow> search_manager" where
  "addToSearchHistory st q n now =
     (let h = \<lparr>h_query = q, resultsCount = n, timestamp = now\<rparr>
              # filter (\<lambda>item. h_query item \<noteq> q) (searchHistory st)
      in st\<lparr>searchHistory := (if 50 < length h then take 50 h else h)\<rparr>)"

text \<open>
  \<^verbatim>\<open>showSearchResults(query, results)\<close>, search.js lines 596 to 665, as far as the
  manager is concerned. It returns at once when the results dialog is not in the document.
  When there are hits it renders them, and \<^verbatim>\<open>renderArticleResult\<close> and
  \<^verbatim>\<open>renderAuthorResult\<close> call \<^verbatim>\<open>highlightMatch\<close>, which for a non-empty query
  builds \<^verbatim>\<open>new RegExp(`(${query})`, 'gi')\<close>: that throws a SyntaxError when the
  pattern is not a regular expression. Whether the engine accepts a pattern is the argument
  \<open>patternOk\<close>. Only after rendering comes one more \<^verbatim>\<open>addToSearchHistory\<close>.
\<close>

datatype search_error = RegExpSyntaxError

definition showSearchResults ::
  "search_manager \<Rightarrow> bool \<Rightarrow> (jsstring \<Rightarrow> bool) \<Rightarrow> jsstring \<Rightarrow> search_results \<Rightarrow> jsstring
     \<Rightarrow> search_error + search_manager" where
  "showSearchResults st dialogPresent patternOk q results now =
     (if \<not> dialogPresent then Inr st
      else if total results \<noteq> 0 \<and> q \<noteq> [] \<and> \<not> patternOk (lit ''('' @ q @ lit '')'')
      then Inl RegExpSyntaxError
      else Inr (addToSearchHistory st q (total results) now))"

text \<open>
  \<^verbatim>\<open>performSearch(query, addToHistory)\<close>, search.js lines 292 to 305: what it returns,
  or the error it throws, and the manager afterwards. The object returned for a query
  shorter than two code units has no \<^verbatim>\<open>query\<close> property. When
  \<^verbatim>\<open>showSearchResults\<close> throws, the first \<^verbatim>\<open>addToSearchHistory\<close> has already
  happened.
\<close>

definition performSearch ::
  "search_manager \<Rightarrow> jsstring \<Rightarrow> bool \<Rightarrow> bool \<Rightarrow> (jsstring \<Rightarrow> bool) \<Rightarrow> jsstring \<Rightarrow> jsstring
     \<Rightarrow> (search_error + search_results) \<times> search_manager" where
  "performSearch st q addToHistory dialogPresent patternOk now1 now2 =
     (if q = [] \<or> length q < 2
      then (Inr \<lparr>articles = [], authors = [], total = 0, query = None\<rparr>, st)
      else
        (let results = searchInIndex (searchIndex st) q
         in if addToHistory
            then (let st1 = addToSearchHistory st q (total results) now1
                  in case showSearchResults st1 dialogPresent patternOk q results now2 of
                       Inl e \<Rightarrow> (Inl e, st1)
                     | Inr st2 \<Rightarrow> (Inr results, st2))
            else (Inr results, st)))"

section \<open>Notions used to state the properties\<close>





text \<open>
  \<^verbatim>\<open>searchIndex.get(w)\<close>, read as the empty array when the map has no entry for
  \<open>w\<close>.
\<close>

definition postingsOf :: "search_index \<Rightarrow> jsstring \<Rightarrow> posting list" where
  "postingsOf idx w = (case map_of idx w of None \<Rightarrow> [] | Some ps \<Rightarrow> ps)"

text \<open>
  The postings a collection contributes under a token: for each published article, and for
  each user, one posting per occurrence of the token in the words of the document.
\<close>

definition articlePostings :: "article list \<Rightarrow> jsstring \<Rightarrow> posting list" where
  "articlePostings arts w =
     concat (map (\<lambda>a. replicate (count_list (extractWords (articleText a)) w) (articlePosting a w))
       (filter (\<lambda>a. status a = Published) arts))"

definition userPostings :: "user list \<Rightarrow> jsstring \<Rightarrow> posting list" where
  "userPostings users w =
     concat (map (\<lambda>u. replicate (count_list (extractWords (userText u)) w) (userPosting u)) users)"

text \<open>
  The object \<open>performSearch\<close> returns for an index and a query, when it returns one.
\<close>

definition queryResult :: "search_index \<Rightarrow> jsstring \<Rightarrow> search_results" where
  "queryResult idx q =
     (if q = [] \<or> length q < 2
      then \<lparr>articles = [], authors = [], total = 0, query = None\<rparr>
      else searchInIndex idx q)"

text \<open>The pattern \<^verbatim>\<open>highlightMatch\<close> builds from a query.\<close>

definition highlightPattern :: "jsstring \<Rightarrow> jsstring" where
  "highlightPattern q = lit ''('' @ q @ lit '')''"

text \<open>
  A verdict on patterns for the examples: every pattern is accepted except the given one.
  The examples give it \<^verbatim>\<open>(go ()\<close>, whose parentheses do not balance.
\<close>

definition acceptsAllBut :: "jsstring \<Rightarrow> jsstring \<Rightarrow> bool" where
  "acceptsAllBut bad pattern = (pattern \<noteq> bad)"

text \<open>The document a posting refers to: its type and its id.\<close>

definition docRef :: "posting \<Rightarrow> jsstring \<times> jsstring" where
  "docRef p = (p_type p, p_id p)"

text \<open>
  The postings stored under the index token equal to a query token, and the postings
  stored under the other index tokens that contain it.
\<close>

definition exactPostings :: "search_index \<Rightarrow> jsstring \<Rightarrow> posting list" where
  "exactPostings idx w = concat (map snd (filter (\<lambda>(indexWord, ps). indexWord = w) idx))"

definition partialPostings :: "search_index \<Rightarrow> jsstring \<Rightarrow> posting list" where
  "partialPostings idx w =
     concat (map snd (filter (\<lambda>(indexWord, ps). includes_str indexWord w \<and> indexWord \<noteq> w) idx))"

definition matchedPostings :: "search_index \<Rightarrow> jsstring list \<Rightarrow> posting list" where
  "matchedPostings idx ws = concat (map (\<lambda>w. exactPostings idx w @ partialPostings idx w) ws)"

text \<open>
  The score the specification gives a document for a list of query tokens: for each token,
  the full weight of the document's exact postings plus half the weight of its partial
  ones.
\<close>

definition specScore :: "search_index \<Rightarrow> jsstring list \<Rightarrow> jsstring \<times> jsstring \<Rightarrow> rat" where
  "specScore idx ws d =
     sum_list (map (\<lambda>w.
         sum_list (map (\<lambda>p. of_nat (relevance p)) (filter (\<lambda>p. docRef p = d) (exactPostings idx w)))
       + sum_list (map (\<lambda>p. of_nat (relevance p) / 2)
           (filter (\<lambda>p. docRef p = d) (partialPostings idx w)))) ws)"

text \<open>The score \<^verbatim>\<open>resultMap\<close> holds for a key, 0 when the key is absent.\<close>

definition scoreAt :: "result_map \<Rightarrow> jsstring \<Rightarrow> rat" where
  "scoreAt rm k = (case map_of rm k of None \<Rightarrow> 0 | Some e \<Rightarrow> score e)"

text \<open>Every entry of a result map is filed under the key of its own document.\<close>

definition keyed :: "result_map \<Rightarrow> bool" where
  "keyed rm = (distinct (map fst rm) \<and> list_all (\<lambda>(k, e). resultKey (doc e) = k) rm)"









section \<open>Tokenization\<close>
































section \<open>The contents of the built index\<close>

lemma map_of_pushPosting:
  "map_of (pushPosting w p idx) w' =
     (if w' = w then Some (postingsOf idx w @ [p]) else map_of idx w')"
  by (simp add: pushPosting_def postingsOf_def map_of_map_entry update_conv'
      split: option.splits)

lemma distinct_pushPosting:
  "distinct (map fst idx) \<Longrightarrow> distinct (map fst (pushPosting w p idx))"
  by (simp add: pushPosting_def distinct_map_entry distinct_update)

lemma map_of_pushAll:
  "map_of (foldl (\<lambda>i word. pushPosting word (f word) i) idx ws) w =
     (if w \<in> set ws
      then Some (postingsOf idx w @ replicate (count_list ws w) (f w))
      else map_of idx w)"
proof (induction ws arbitrary: idx)
  case Nil
  show ?case by simp
next
  case (Cons v vs)
  show ?case
    by (simp add: Cons.IH map_of_pushPosting postingsOf_def replicate_append_same
        split: option.splits)
qed

lemma distinct_pushAll:
  "distinct (map fst idx) \<Longrightarrow>
   distinct (map fst (foldl (\<lambda>i word. pushPosting word (f word) i) idx ws))"
  by (induction ws arbitrary: idx) (simp_all add: distinct_pushPosting)

lemma postingsOf_pushAll:
  "postingsOf (foldl (\<lambda>i word. pushPosting word (f word) i) idx ws) w =
     postingsOf idx w @ replicate (count_list ws w) (f w)"
  by (simp add: postingsOf_def [of "foldl _ _ _"] map_of_pushAll count_list_0_iff)
    (simp add: postingsOf_def)

lemma postingsOf_indexArticle:
  "postingsOf (indexArticle idx a) w =
     postingsOf idx w @ replicate (count_list (extractWords (articleText a)) w) (articlePosting a w)"
  by (simp add: indexArticle_def postingsOf_pushAll)

lemma postingsOf_indexUser:
  "postingsOf (indexUser idx u) w =
     postingsOf idx w @ replicate (count_list (extractWords (userText u)) w) (userPosting u)"
  by (simp add: indexUser_def postingsOf_pushAll)

lemma searchIndex_build:
  "searchIndex (buildSearchIndex lc st arts users) =
     foldl indexUser
       (foldl (\<lambda>idx a. if status a = Published then indexArticle idx a else idx) [] arts) users"
  by (simp add: buildSearchIndex_def)

lemma postingsOf_articles:
  "postingsOf (foldl (\<lambda>idx a. if status a = Published then indexArticle idx a else idx) idx arts) w =
     postingsOf idx w @ articlePostings arts w"
  by (induction arts arbitrary: idx) (simp_all add: articlePostings_def postingsOf_indexArticle)

lemma postingsOf_users:
  "postingsOf (foldl indexUser idx users) w = postingsOf idx w @ userPostings users w"
  by (induction users arbitrary: idx) (simp_all add: userPostings_def postingsOf_indexUser)

lemma postingsOf_built:
  "postingsOf (searchIndex (buildSearchIndex lc st arts users)) w =
     articlePostings arts w @ userPostings users w"
  by (simp add: searchIndex_build postingsOf_users postingsOf_articles) (simp add: postingsOf_def)

lemma distinct_indexArticle:
  "distinct (map fst idx) \<Longrightarrow> distinct (map fst (indexArticle idx a))"
  by (simp add: indexArticle_def distinct_pushAll)

lemma distinct_indexUser:
  "distinct (map fst idx) \<Longrightarrow> distinct (map fst (indexUser idx u))"
  by (simp add: indexUser_def distinct_pushAll)

lemma distinct_articles:
  "distinct (map fst idx) \<Longrightarrow>
   distinct (map fst (foldl (\<lambda>idx a. if status a = Published then indexArticle idx a else idx) idx arts))"
  by (induction arts arbitrary: idx) (simp_all add: distinct_indexArticle)

lemma distinct_users:
  "distinct (map fst idx) \<Longrightarrow> distinct (map fst (foldl indexUser idx users))"
  by (induction users arbitrary: idx) (simp_all add: distinct_indexUser)

lemma distinct_built: "distinct (map fst (searchIndex (buildSearchIndex lc st arts users)))"
  by (simp add: searchIndex_build distinct_users distinct_articles)






lemma in_articlePostings:
  "p \<in> set (articlePostings arts w) \<longleftrightarrow>
     (\<exists>a\<in>set arts. status a = Published \<and> w \<in> set (extractWords (articleText a))
        \<and> p = articlePosting a w)"
  by (auto simp: articlePostings_def count_list_0_iff)

lemma in_userPostings:
  "p \<in> set (userPostings users w) \<longleftrightarrow>
     (\<exists>u\<in>set users. w \<in> set (extractWords (userText u)) \<and> p = userPosting u)"
  by (auto simp: userPostings_def count_list_0_iff)

lemma entry_postingsOf:
  "distinct (map fst idx) \<Longrightarrow> (w, ps) \<in> set idx \<Longrightarrow> postingsOf idx w = ps"
  by (simp add: postingsOf_def)

section \<open>Claims about tokens, postings and weights\<close>




text \<open>
  C4 (as amended). Building appends one posting per occurrence of a token in the words of a
  document: under a token \<open>w\<close> the built index holds, for each published article and then
  for each user, as many copies of the document's posting as \<open>w\<close> occurs in the words of
  that document, and \<open>indexArticle\<close> and \<open>indexUser\<close> append exactly these copies.
\<close>

theorem index_postings_per_occurrence:
  "postingsOf (searchIndex (buildSearchIndex lc st arts users)) w =
     articlePostings arts w @ userPostings users w
   \<and> postingsOf (indexArticle idx a) w =
       postingsOf idx w
       @ replicate (count_list (extractWords (articleText a)) w) (articlePosting a w)
   \<and> postingsOf (indexUser idx u) w =
       postingsOf idx w @ replicate (count_list (extractWords (userText u)) w) (userPosting u)"
proof (intro conjI)
  show "postingsOf (searchIndex (buildSearchIndex lc st arts users)) w =
      articlePostings arts w @ userPostings users w"
    by (rule postingsOf_built)
  show "postingsOf (indexArticle idx a) w =
      postingsOf idx w
      @ replicate (count_list (extractWords (articleText a)) w) (articlePosting a w)"
    by (rule postingsOf_indexArticle)
  show "postingsOf (indexUser idx u) w =
      postingsOf idx w @ replicate (count_list (extractWords (userText u)) w) (userPosting u)"
    by (rule postingsOf_indexUser)
qed

text \<open>
  C4 as stated fails: an article whose title is \<^verbatim>\<open>go go\<close> gets two postings under
  \<^verbatim>\<open>go\<close>, and the query \<^verbatim>\<open>go\<close> scores it 8, twice the score 4 of the same
  article with the title \<^verbatim>\<open>go\<close>.
\<close>

theorem repeated_token_counterexample:
  "postingsOf (searchIndex (buildSearchIndex toLowerCase (newManager [])
       [\<lparr>art_id = lit ''a1'', title = lit ''go go'', lead = [], content = [], tags = [],
         category = None, status = Published, publishedAt = None\<rparr>] [])) (lit ''go'')
     = [ArticlePosting (lit ''a1'') (lit ''go go'') [] None None 4,
        ArticlePosting (lit ''a1'') (lit ''go go'') [] None None 4]
   \<and> map score (articles (searchInIndex (searchIndex (buildSearchIndex toLowerCase (newManager [])
       [\<lparr>art_id = lit ''a1'', title = lit ''go go'', lead = [], content = [], tags = [],
         category = None, status = Published, publishedAt = None\<rparr>] [])) (lit ''go''))) = [8]
   \<and> map score (articles (searchInIndex (searchIndex (buildSearchIndex toLowerCase (newManager [])
       [\<lparr>art_id = lit ''a1'', title = lit ''go'', lead = [], content = [], tags = [],
         category = None, status = Published, publishedAt = None\<rparr>] [])) (lit ''go''))) = [4]"
  by code_simp

text \<open>
  C3 (as amended). Every posting of a built index is either the posting of a published
  article, whose weight is 1, plus 3 if the token occurs in the lower-cased title, plus 2 if
  it occurs in the lower-cased lead, plus 2 if it occurs in some lower-cased tag, or the
  posting of a user, whose weight is 1 whatever the bio says.
\<close>

theorem built_index_weights:
  assumes "p \<in> set (postingsOf (searchIndex (buildSearchIndex lc st arts users)) w)"
  shows "(\<exists>a\<in>set arts. status a = Published \<and> p = articlePosting a w
            \<and> relevance p =
                1 + (if includes_str (toLowerCase (title a)) w then 3 else 0)
                  + (if includes_str (toLowerCase (lead a)) w then 2 else 0)
                  + (if (\<exists>tag\<in>set (tags a). includes_str (toLowerCase tag) w) then 2 else 0))
         \<or> (\<exists>u\<in>set users. p = userPosting u \<and> relevance p = 1)"
proof -
  from assms have "p \<in> set (articlePostings arts w) \<or> p \<in> set (userPostings users w)"
    by (simp add: postingsOf_built)
  then show ?thesis
  proof
    assume "p \<in> set (articlePostings arts w)"
    then obtain a where "a \<in> set arts" "status a = Published" "p = articlePosting a w"
      by (auto simp: in_articlePostings)
    then show ?thesis
      by (auto simp: articlePosting_def calculateWordRelevance_def list_ex_iff)
  next
    assume "p \<in> set (userPostings users w)"
    then obtain u where "u \<in> set users" "p = userPosting u"
      by (auto simp: in_userPostings)
    then show ?thesis
      by (auto simp: userPosting_def)
  qed
qed

theorem built_index_weights_witness:
  "ArticlePosting (lit ''a1'') (lit ''Go'') (lit ''go now'') None None 8
     \<in> set (postingsOf (searchIndex (buildSearchIndex toLowerCase (newManager [])
       [\<lparr>art_id = lit ''a1'', title = lit ''Go'', lead = lit ''go now'', content = [],
         tags = [lit ''Go''], category = None, status = Published, publishedAt = None\<rparr>] []))
       (lit ''go''))
   \<and> ((\<exists>a\<in>set [\<lparr>art_id = lit ''a1'', title = lit ''Go'', lead = lit ''go now'', content = [],
         tags = [lit ''Go''], category = None, status = Published, publishedAt = None\<rparr>].
          status a = Published
          \<and> ArticlePosting (lit ''a1'') (lit ''Go'') (lit ''go now'') None None 8 = articlePosting a (lit ''go'')
          \<and> relevance (ArticlePosting (lit ''a1'') (lit ''Go'') (lit ''go now'') None None 8) =
                1 + (if includes_str (toLowerCase (title a)) (lit ''go'') then 3 else 0)
                  + (if includes_str (toLowerCase (lead a)) (lit ''go'') then 2 else 0)
                  + (if (\<exists>tag\<in>set (tags a). includes_str (toLowerCase tag) (lit ''go''))
                     then 2 else 0))
        \<or> (\<exists>u\<in>set []. ArticlePosting (lit ''a1'') (lit ''Go'') (lit ''go now'') None None 8 = userPosting u
              \<and> relevance (ArticlePosting (lit ''a1'') (lit ''Go'') (lit ''go now'') None None 8) = 1))"
proof -
  have h: "ArticlePosting (lit ''a1'') (lit ''Go'') (lit ''go now'') None None 8
     \<in> set (postingsOf (searchIndex (buildSearchIndex toLowerCase (newManager [])
       [\<lparr>art_id = lit ''a1'', title = lit ''Go'', lead = lit ''go now'', content = [],
         tags = [lit ''Go''], category = None, status = Published, publishedAt = None\<rparr>] []))
       (lit ''go''))"
    by code_simp
  show ?thesis
    by (rule conjI [OF h built_index_weights [OF h]])
qed

text \<open>
  C3 as stated fails for authors: the token \<^verbatim>\<open>poet\<close> occurs in the bio of the user,
  and the weight of the posting is 1, not 3.
\<close>

theorem author_weight_counterexample:
  "postingsOf (searchIndex (buildSearchIndex toLowerCase (newManager []) []
       [\<lparr>user_id = lit ''u1'', firstName = lit ''Ann'', lastName = lit ''Lee'',
         role = lit ''author'', bio = Some (lit ''poet'')\<rparr>])) (lit ''poet'')
     = [AuthorPosting (lit ''u1'') (lit ''Ann Lee'') (lit ''author'') (Some (lit ''poet'')) 1]
   \<and> includes_str (toLowerCase (lit ''poet'')) (lit ''poet'')"
  by code_simp

section \<open>Claims about degenerate queries, the query field and rebuilding\<close>

lemma collectResults_no_words: "collectResults idx [] = []"
  by (simp add: collectResults_def)

lemma collectResults_empty_index: "collectResults [] ws = []"
proof -
  have "foldl (\<lambda>rm word. partialMatches [] word (exactMatches [] word rm)) rm ws = rm" for rm
    by (induction ws arbitrary: rm) (simp_all add: partialMatches_def exactMatches_def)
  then show ?thesis by (simp add: collectResults_def)
qed

lemma searchInIndex_nothing:
  "collectResults idx (extractWords q) = [] \<Longrightarrow>
   searchInIndex idx q = \<lparr>articles = [], authors = [], total = 0, query = Some q\<rparr>"
  by (simp add: searchInIndex_def sortBy_def)

lemma extractWords_dotted_I: "extractWords [304] = []"
  by code_simp

lemma lowerUnits_single: "c \<noteq> 304 \<Longrightarrow> \<exists>x. lowerUnits c = [x]"
  by (simp add: lowerUnits_def)

lemma short_query_no_words: "length q < 2 \<Longrightarrow> extractWords q = []"
proof -
  assume "length q < 2"
  then have "q = [] \<or> (\<exists>c. q = [c])"
    by (cases q; cases "tl q") auto
  then consider "q = []" | "q = [304]" | c x where "q = [c]" "lowerUnits c = [x]"
    using lowerUnits_single by blast
  then show ?thesis
  proof cases
    case 1
    then show ?thesis
      by (simp add: extractWords_def toLowerCase_def replacePunct_def)
  next
    case 2
    then show ?thesis
      by (simp only: extractWords_dotted_I)
  next
    case 3
    then show ?thesis
      by (auto simp: extractWords_def toLowerCase_def replacePunct_def)
  qed
qed

lemma empty_indexes:
  "searchIndex (newManager history) = [] \<and> searchIndex (buildSearchIndex lc st [] []) = []"
  by (simp add: newManager_def buildSearchIndex_def)

lemma outcome_performSearch:
  "fst (performSearch st q h d p ta tb) =
     (if 2 \<le> length q \<and> h \<and> d \<and> \<not> p (highlightPattern q)
         \<and> total (searchInIndex (searchIndex st) q) \<noteq> 0
      then Inl RegExpSyntaxError
      else Inr (queryResult (searchIndex st) q))"
proof (cases "q = [] \<or> length q < 2")
  case True
  then have "\<not> 2 \<le> length q"
    by auto
  with True show ?thesis
    by (simp add: performSearch_def queryResult_def)
next
  case False
  then have "2 \<le> length q" and "q \<noteq> []"
    by auto
  with False show ?thesis
    by (simp add: performSearch_def queryResult_def showSearchResults_def highlightPattern_def
        Let_def)
qed

text \<open>
  C7. A query shorter than two code units, a query whose tokenization is empty and any
  query against an empty index (the index of a manager that has built nothing, or built
  from no documents, lemma \<open>empty_indexes\<close>) make \<open>performSearch\<close> return, and not
  throw: it returns no articles, no authors and the total 0, whatever the engine thinks of
  the query as a pattern.
\<close>

theorem performSearch_degenerate:
  assumes "length q < 2 \<or> extractWords q = [] \<or> searchIndex st = []"
  shows "fst (performSearch st q h d p ta tb)
     = Inr \<lparr>articles = [], authors = [], total = 0,
            query = (if 2 \<le> length q then Some q else None)\<rparr>"
proof (cases "q = [] \<or> length q < 2")
  case True
  then have "\<not> 2 \<le> length q"
    by auto
  with True show ?thesis
    by (simp add: outcome_performSearch queryResult_def)
next
  case False
  with assms have "collectResults (searchIndex st) (extractWords q) = []"
    by (auto simp: collectResults_no_words collectResults_empty_index)
  then have "searchInIndex (searchIndex st) q
      = \<lparr>articles = [], authors = [], total = 0, query = Some q\<rparr>"
    by (rule searchInIndex_nothing)
  with False show ?thesis
    by (simp add: outcome_performSearch queryResult_def)
qed

theorem performSearch_degenerate_witness:
  "extractWords (lit ''a ( !'') = []
   \<and> \<not> acceptsAllBut (lit ''(a ( !)'') (highlightPattern (lit ''a ( !''))
   \<and> fst (performSearch (buildSearchIndex toLowerCase (newManager [])
         [\<lparr>art_id = lit ''a1'', title = lit ''go'', lead = [], content = [], tags = [],
           category = None, status = Published, publishedAt = None\<rparr>] [])
         (lit ''a ( !'') True True (acceptsAllBut (lit ''(a ( !)'')) [] [])
       = Inr \<lparr>articles = [], authors = [], total = 0, query = Some (lit ''a ( !'')\<rparr>"
proof -
  have h: "extractWords (lit ''a ( !'') = []"
    by code_simp
  have b: "\<not> acceptsAllBut (lit ''(a ( !)'') (highlightPattern (lit ''a ( !''))"
    by code_simp
  have l: "2 \<le> length (lit ''a ( !'')"
    by code_simp
  from h have "length (lit ''a ( !'') < 2 \<or> extractWords (lit ''a ( !'') = []
      \<or> searchIndex (buildSearchIndex toLowerCase (newManager [])
         [\<lparr>art_id = lit ''a1'', title = lit ''go'', lead = [], content = [], tags = [],
           category = None, status = Published, publishedAt = None\<rparr>] []) = []"
    by simp
  from performSearch_degenerate [OF this] h b l show ?thesis
    by simp
qed

lemma searchIndex_addToSearchHistory:
  "searchIndex (addToSearchHistory st q n now) = searchIndex st"
  by (simp add: addToSearchHistory_def Let_def)

lemma searchIndex_performSearch:
  "searchIndex (snd (performSearch st q h d p ta tb)) = searchIndex st"
  by (simp add: performSearch_def Let_def showSearchResults_def searchIndex_addToSearchHistory
      split: sum.splits if_splits)

lemma outcome_performSearch_index:
  "searchIndex st = searchIndex st' \<Longrightarrow>
   fst (performSearch st q h d p ta tb) = fst (performSearch st' q h d p tc td)"
  by (simp add: outcome_performSearch)

lemma searchIndex_build_any:
  "searchIndex (buildSearchIndex lc st arts users)
     = searchIndex (buildSearchIndex lc' st' arts users)"
  by (simp add: buildSearchIndex_def)

lemma returned_result:
  "fst (performSearch st q h d p ta tb) = Inr r \<Longrightarrow> r = queryResult (searchIndex st) q"
  by (simp add: outcome_performSearch split: if_splits)

text \<open>
  C6. Building, querying, building again from the same documents and querying again in the
  same way has the same outcome, and whenever two such queries return, however they were
  asked to show their results, they return equal results; the index a build produces does
  not depend on the state before it; a query leaves the index as it was (only the search
  history can change), so the same holds for a query repeated on the resulting state. Every
  result returned is a function of the index and the query alone.
\<close>

theorem build_query_idempotent:
  "fst (performSearch
          (buildSearchIndex lc (snd (performSearch (buildSearchIndex lc st arts users) q h d p ta tb))
             arts users) q h d p tc td)
     = fst (performSearch (buildSearchIndex lc st arts users) q h d p ta tb)
   \<and> (fst (performSearch (buildSearchIndex lc st arts users) q h d p ta tb) = Inr r \<longrightarrow>
       fst (performSearch
              (buildSearchIndex lc
                 (snd (performSearch (buildSearchIndex lc st arts users) q h d p ta tb))
                 arts users) q h' d' p' tc td) = Inr r' \<longrightarrow>
       r' = r)
   \<and> searchIndex (buildSearchIndex lc st arts users)
       = searchIndex (buildSearchIndex lc' st' arts users)
   \<and> searchIndex (snd (performSearch st q h d p ta tb)) = searchIndex st
   \<and> fst (performSearch (snd (performSearch st q h d p ta tb)) q h d p tc td)
       = fst (performSearch st q h d p ta tb)
   \<and> (fst (performSearch st q h d p ta tb) = Inr r \<longrightarrow>
       fst (performSearch (snd (performSearch st q h d p ta tb)) q h' d' p' tc td) = Inr r' \<longrightarrow>
       r' = r)
   \<and> (fst (performSearch st q h d p ta tb) = Inr r \<longrightarrow> r = queryResult (searchIndex st) q)"
proof (intro conjI impI)
  let ?b = "buildSearchIndex lc st arts users"
  let ?b2 = "buildSearchIndex lc (snd (performSearch ?b q h d p ta tb)) arts users"
  have i: "searchIndex ?b2 = searchIndex ?b"
    by (rule searchIndex_build_any)
  show "fst (performSearch ?b2 q h d p tc td) = fst (performSearch ?b q h d p ta tb)"
    by (rule outcome_performSearch_index [OF i])
  show "r' = r"
    if "fst (performSearch ?b q h d p ta tb) = Inr r"
      and "fst (performSearch ?b2 q h' d' p' tc td) = Inr r'"
    using that [THEN returned_result] by (simp add: i)
  show "searchIndex ?b = searchIndex (buildSearchIndex lc' st' arts users)"
    by (rule searchIndex_build_any)
  show "searchIndex (snd (performSearch st q h d p ta tb)) = searchIndex st"
    by (rule searchIndex_performSearch)
  show "fst (performSearch (snd (performSearch st q h d p ta tb)) q h d p tc td)
      = fst (performSearch st q h d p ta tb)"
    by (rule outcome_performSearch_index [OF searchIndex_performSearch])
  show "r' = r"
    if "fst (performSearch st q h d p ta tb) = Inr r"
      and "fst (performSearch (snd (performSearch st q h d p ta tb)) q h' d' p' tc td) = Inr r'"
    using that [THEN returned_result] by (simp add: searchIndex_performSearch)
  show "r = queryResult (searchIndex st) q"
    if "fst (performSearch st q h d p ta tb) = Inr r"
    using that by (rule returned_result)
qed

theorem build_query_idempotent_witness:
  "fst (performSearch (buildSearchIndex toLowerCase (newManager [])
         [\<lparr>art_id = lit ''a1'', title = lit ''go'', lead = [], content = [], tags = [],
           category = None, status = Published, publishedAt = None\<rparr>] [])
         (lit ''go'') True True (acceptsAllBut (lit ''(go ()'')) [] [])
     = Inr \<lparr>articles = [\<lparr>doc = ArticlePosting (lit ''a1'') (lit ''go'') [] None None 4, score = 4\<rparr>],
            authors = [], total = 1, query = Some (lit ''go'')\<rparr>
   \<and> fst (performSearch
        (snd (performSearch (buildSearchIndex toLowerCase (newManager [])
         [\<lparr>art_id = lit ''a1'', title = lit ''go'', lead = [], content = [], tags = [],
           category = None, status = Published, publishedAt = None\<rparr>] [])
           (lit ''go'') True True (acceptsAllBut (lit ''(go ()'')) [] []))
        (lit ''go'') False False (acceptsAllBut (lit ''(go ()'')) [] [])
     = Inr \<lparr>articles = [\<lparr>doc = ArticlePosting (lit ''a1'') (lit ''go'') [] None None 4, score = 4\<rparr>],
            authors = [], total = 1, query = Some (lit ''go'')\<rparr>"
proof -
  have a: "fst (performSearch (buildSearchIndex toLowerCase (newManager [])
         [\<lparr>art_id = lit ''a1'', title = lit ''go'', lead = [], content = [], tags = [],
           category = None, status = Published, publishedAt = None\<rparr>] [])
         (lit ''go'') True True (acceptsAllBut (lit ''(go ()'')) [] [])
     = Inr \<lparr>articles = [\<lparr>doc = ArticlePosting (lit ''a1'') (lit ''go'') [] None None 4, score = 4\<rparr>],
            authors = [], total = 1, query = Some (lit ''go'')\<rparr>"
    by code_simp
  have "\<exists>r'. fst (performSearch
        (snd (performSearch (buildSearchIndex toLowerCase (newManager [])
         [\<lparr>art_id = lit ''a1'', title = lit ''go'', lead = [], content = [], tags = [],
           category = None, status = Published, publishedAt = None\<rparr>] [])
           (lit ''go'') True True (acceptsAllBut (lit ''(go ()'')) [] []))
        (lit ''go'') False False (acceptsAllBut (lit ''(go ()'')) [] []) = Inr r'"
    by (simp add: outcome_performSearch)
  then obtain r' where b: "fst (performSearch
        (snd (performSearch (buildSearchIndex toLowerCase (newManager [])
         [\<lparr>art_id = lit ''a1'', title = lit ''go'', lead = [], content = [], tags = [],
           category = None, status = Published, publishedAt = None\<rparr>] [])
           (lit ''go'') True True (acceptsAllBut (lit ''(go ()'')) [] []))
        (lit ''go'') False False (acceptsAllBut (lit ''(go ()'')) [] []) = Inr r'"
    by blast
  from build_query_idempotent
    [where st = "(buildSearchIndex toLowerCase (newManager [])
         [\<lparr>art_id = lit ''a1'', title = lit ''go'', lead = [], content = [], tags = [],
           category = None, status = Published, publishedAt = None\<rparr>] [])"
       and q = "lit ''go''" and h = True and d = True and p = "acceptsAllBut (lit ''(go ()'')"
       and ta = "[]" and tb = "[]" and h' = False and d' = False
       and p' = "acceptsAllBut (lit ''(go ()'')" and tc = "[]" and td = "[]"
       and r = "\<lparr>articles = [\<lparr>doc = ArticlePosting (lit ''a1'') (lit ''go'') [] None None 4, score = 4\<rparr>],
            authors = [], total = 1, query = Some (lit ''go'')\<rparr>" and r' = r'] a b
  have "r' = \<lparr>articles = [\<lparr>doc = ArticlePosting (lit ''a1'') (lit ''go'') [] None None 4, score = 4\<rparr>],
            authors = [], total = 1, query = Some (lit ''go'')\<rparr>"
    by blast
  with a b show ?thesis
    by simp
qed

text \<open>
  An outcome the other way: the query \<^verbatim>\<open>go (\<close> hits the article, the pattern
  \<^verbatim>\<open>(go ()\<close> is rejected, and with the dialog present \<open>performSearch\<close> throws after
  one entry has gone into the history.
\<close>

lemma performSearch_throws_example:
  "performSearch (buildSearchIndex toLowerCase (newManager [])
         [\<lparr>art_id = lit ''a1'', title = lit ''go'', lead = [], content = [], tags = [],
           category = None, status = Published, publishedAt = None\<rparr>] [])
         (lit ''go ('') True True (acceptsAllBut (lit ''(go ()'')) [] []
     = (Inl RegExpSyntaxError,
        (buildSearchIndex toLowerCase (newManager [])
         [\<lparr>art_id = lit ''a1'', title = lit ''go'', lead = [], content = [], tags = [],
           category = None, status = Published, publishedAt = None\<rparr>] [])
          \<lparr>searchHistory := [\<lparr>h_query = lit ''go ('', resultsCount = 1, timestamp = []\<rparr>]\<rparr>)"
  by code_simp

text \<open>
  C9 (as amended). \<open>performSearch\<close> throws exactly when it is asked to show the results
  of a query of at least two code units that has hits, the dialog is present and the engine
  rejects the query as a pattern. Otherwise it returns a result, which carries the query
  string in its \<^verbatim>\<open>query\<close> field exactly when the query has at least two code units;
  the result for a shorter query has no \<^verbatim>\<open>query\<close> field.
\<close>

theorem performSearch_query_field:
  "fst (performSearch st q h d p ta tb) =
     (if 2 \<le> length q \<and> h \<and> d \<and> \<not> p (highlightPattern q)
         \<and> total (searchInIndex (searchIndex st) q) \<noteq> 0
      then Inl RegExpSyntaxError
      else Inr (queryResult (searchIndex st) q))
   \<and> query (queryResult (searchIndex st) q) = (if 2 \<le> length q then Some q else None)"
proof
  show "fst (performSearch st q h d p ta tb) =
     (if 2 \<le> length q \<and> h \<and> d \<and> \<not> p (highlightPattern q)
         \<and> total (searchInIndex (searchIndex st) q) \<noteq> 0
      then Inl RegExpSyntaxError
      else Inr (queryResult (searchIndex st) q))"
    by (rule outcome_performSearch)
  show "query (queryResult (searchIndex st) q) = (if 2 \<le> length q then Some q else None)"
  proof (cases "2 \<le> length q")
    case True
    then have "\<not> (q = [] \<or> length q < 2)"
      by auto
    with True show ?thesis
      by (simp add: queryResult_def searchInIndex_def Let_def)
  next
    case False
    then have "q = [] \<or> length q < 2"
      by auto
    with False show ?thesis
      by (simp add: queryResult_def)
  qed
qed

text \<open>
  C9 as stated fails: for the one-character query \<^verbatim>\<open>a\<close> the result has no
  \<^verbatim>\<open>query\<close> field.
\<close>

theorem short_query_field_counterexample:
  "fst (performSearch (newManager []) (lit ''a'') False False (acceptsAllBut (lit ''(go ()'')) [] [])
     = Inr \<lparr>articles = [], authors = [], total = 0, query = None\<rparr>"
  by code_simp

lemma foldl_if_filter_same:
  "foldl (\<lambda>acc x. if P x then f acc x else acc) acc (filter P xs)
     = foldl (\<lambda>acc x. if P x then f acc x else acc) acc xs"
  by (induction xs arbitrary: acc) simp_all

lemma getPopularTags_published:
  "getPopularTags lc (filter (\<lambda>a. status a = Published) arts) = getPopularTags lc arts"
  by (simp add: getPopularTags_def foldl_if_filter_same)

lemma build_published:
  "buildSearchIndex lc st (filter (\<lambda>a. status a = Published) arts) users
     = buildSearchIndex lc st arts users"
  by (simp add: buildSearchIndex_def buildSuggestions_def foldl_if_filter_same
      getPopularTags_published)

lemma article_author_distinct: "lit ''article'' \<noteq> lit ''author''"
  by (simp add: lit_def)

text \<open>
  C8. A build from all articles is the build from the published ones alone: the whole
  state, index and suggestions, is the same, and so are the pool of popular tags, the
  outcome of every query and the suggestions for every prefix. Every article posting of a
  built index is the posting of a published article of the collection and carries its id.
\<close>

theorem unpublished_articles_ignored:
  "buildSearchIndex lc st (filter (\<lambda>a. status a = Published) arts) users
     = buildSearchIndex lc st arts users
   \<and> getPopularTags lc (filter (\<lambda>a. status a = Published) arts) = getPopularTags lc arts
   \<and> performSearch (buildSearchIndex lc st (filter (\<lambda>a. status a = Published) arts) users)
          q h d pok ta tb
       = performSearch (buildSearchIndex lc st arts users) q h d pok ta tb
   \<and> getSuggestions lc (buildSearchIndex lc st (filter (\<lambda>a. status a = Published) arts) users) q
       = getSuggestions lc (buildSearchIndex lc st arts users) q
   \<and> (p \<in> set (postingsOf (searchIndex (buildSearchIndex lc st arts users)) w) \<longrightarrow>
        p_type p = lit ''article'' \<longrightarrow>
        (\<exists>a\<in>set arts. status a = Published \<and> p = articlePosting a w \<and> p_id p = art_id a))"
proof -
  have "\<exists>a\<in>set arts. status a = Published \<and> p = articlePosting a w \<and> p_id p = art_id a"
    if p: "p \<in> set (postingsOf (searchIndex (buildSearchIndex lc st arts users)) w)"
      and t: "p_type p = lit ''article''"
  proof -
    from p have "p \<in> set (articlePostings arts w) \<or> p \<in> set (userPostings users w)"
      by (simp add: postingsOf_built)
    moreover have "p \<notin> set (userPostings users w)"
      using t article_author_distinct by (auto simp: in_userPostings userPosting_def)
    ultimately have "p \<in> set (articlePostings arts w)"
      by simp
    then show ?thesis
      by (auto simp: in_articlePostings articlePosting_def)
  qed
  then show ?thesis
    by (simp add: build_published getPopularTags_published)
qed

theorem unpublished_articles_ignored_witness:
  "ArticlePosting (lit ''a1'') (lit ''go'') [] None None 4
     \<in> set (postingsOf (searchIndex (buildSearchIndex toLowerCase (newManager [])
          [\<lparr>art_id = lit ''a2'', title = lit ''secret'', lead = [], content = [],
           tags = [lit ''secret''], category = None, status = Draft, publishedAt = None\<rparr>,
           \<lparr>art_id = lit ''a1'', title = lit ''go'', lead = [], content = [], tags = [],
           category = None, status = Published, publishedAt = None\<rparr>] [])) (lit ''go''))
   \<and> p_type (ArticlePosting (lit ''a1'') (lit ''go'') [] None None 4) = lit ''article''
   \<and> (\<exists>a\<in>set [\<lparr>art_id = lit ''a2'', title = lit ''secret'', lead = [], content = [],
           tags = [lit ''secret''], category = None, status = Draft, publishedAt = None\<rparr>,
           \<lparr>art_id = lit ''a1'', title = lit ''go'', lead = [], content = [], tags = [],
           category = None, status = Published, publishedAt = None\<rparr>].
         status a = Published
         \<and> ArticlePosting (lit ''a1'') (lit ''go'') [] None None 4 = articlePosting a (lit ''go'')
         \<and> p_id (ArticlePosting (lit ''a1'') (lit ''go'') [] None None 4) = art_id a)"
proof -
  have h1: "ArticlePosting (lit ''a1'') (lit ''go'') [] None None 4
     \<in> set (postingsOf (searchIndex (buildSearchIndex toLowerCase (newManager [])
          [\<lparr>art_id = lit ''a2'', title = lit ''secret'', lead = [], content = [],
           tags = [lit ''secret''], category = None, status = Draft, publishedAt = None\<rparr>,
           \<lparr>art_id = lit ''a1'', title = lit ''go'', lead = [], content = [], tags = [],
           category = None, status = Published, publishedAt = None\<rparr>] [])) (lit ''go''))"
    by code_simp
  have h2: "p_type (ArticlePosting (lit ''a1'') (lit ''go'') [] None None 4) = lit ''article''"
    by simp
  from unpublished_articles_ignored
      [where p = "ArticlePosting (lit ''a1'') (lit ''go'') [] None None 4" and w = "lit ''go''"
         and st = "newManager []" and users = "[]" and lc = toLowerCase] h1 h2
  show ?thesis
    by blast
qed

section \<open>Scores, ranking and truncation\<close>

lemma resultKey_eq_iff: "resultKey p = resultKey q \<longleftrightarrow> docRef p = docRef q"
  by (cases p; cases q) (simp_all add: resultKey_def docRef_def lit_def)

lemma map_of_addScore:
  "map_of (addScore d rm p) k =
     (if k = resultKey p
      then Some (case map_of rm k of
                   None \<Rightarrow> \<lparr>doc = p, score = d\<rparr>
                 | Some e \<Rightarrow> e\<lparr>score := score e + d\<rparr>)
      else map_of rm k)"
  by (simp add: addScore_def Let_def map_of_map_entry update_conv' split: option.splits)

lemma scoreAt_addScore:
  "scoreAt (addScore d rm p) k = scoreAt rm k + (if resultKey p = k then d else 0)"
  by (auto simp: scoreAt_def map_of_addScore split: option.splits)

lemma keys_addScore: "fst ` set (addScore d rm p) = insert (resultKey p) (fst ` set rm)"
  by (auto simp: addScore_def Let_def dom_map_entry dom_update dest: map_of_SomeD
      intro: rev_image_eqI)

lemma distinct_addScore: "distinct (map fst rm) \<Longrightarrow> distinct (map fst (addScore d rm p))"
  by (simp add: addScore_def Let_def distinct_map_entry distinct_update)

lemma keyed_iff:
  "keyed rm \<longleftrightarrow> distinct (map fst rm) \<and> (\<forall>k e. map_of rm k = Some e \<longrightarrow> resultKey (doc e) = k)"
  by (auto simp: keyed_def list_all_iff)

lemma keyed_addScore: "keyed rm \<Longrightarrow> keyed (addScore d rm p)"
  unfolding keyed_iff
  by (auto simp: distinct_addScore map_of_addScore split: if_splits option.splits)

lemma scoreAt_addAll:
  "scoreAt (foldl (\<lambda>m p. addScore (f p) m p) rm ps) k =
     scoreAt rm k + sum_list (map f (filter (\<lambda>p. resultKey p = k) ps))"
  by (induction ps arbitrary: rm) (simp_all add: scoreAt_addScore)

lemma keys_addAll:
  "fst ` set (foldl (\<lambda>m p. addScore (f p) m p) rm ps) = fst ` set rm \<union> resultKey ` set ps"
  by (induction ps arbitrary: rm) (auto simp: keys_addScore)

lemma keyed_addAll: "keyed rm \<Longrightarrow> keyed (foldl (\<lambda>m p. addScore (f p) m p) rm ps)"
  by (induction ps arbitrary: rm) (simp_all add: keyed_addScore)

lemma exactPostings_lookup:
  "distinct (map fst idx) \<Longrightarrow>
   exactPostings idx w = (case map_of idx w of None \<Rightarrow> [] | Some ps \<Rightarrow> ps)"
proof (induction idx)
  case Nil
  show ?case by (simp add: exactPostings_def)
next
  case (Cons x idx)
  obtain k ps where x: "x = (k, ps)" by (cases x)
  show ?case
  proof (cases "k = w")
    case True
    with Cons.prems x have "w \<notin> fst ` set idx" by auto
    then have "filter (\<lambda>(indexWord, ps). indexWord = w) idx = []"
      by (force simp: filter_empty_conv)
    with True x show ?thesis by (simp add: exactPostings_def)
  next
    case False
    with Cons x show ?thesis by (simp add: exactPostings_def)
  qed
qed

lemma exactMatches_alt:
  "distinct (map fst idx) \<Longrightarrow>
   exactMatches idx w rm =
     foldl (\<lambda>m p. addScore (of_nat (relevance p)) m p) rm (exactPostings idx w)"
  by (simp add: exactMatches_def exactPostings_lookup split: option.splits)

lemma partialMatches_alt:
  "partialMatches idx w rm =
     foldl (\<lambda>m p. addScore (of_nat (relevance p) * (1 / 2)) m p) rm (partialPostings idx w)"
proof -
  have "foldl (\<lambda>m (indexWord, results).
              if includes_str indexWord w \<and> indexWord \<noteq> w
              then foldl (\<lambda>m' result. addScore (of_nat (relevance result) * (1 / 2)) m' result)
                     m results
              else m) rm xs
      = foldl (\<lambda>m p. addScore (of_nat (relevance p) * (1 / 2)) m p) rm
          (concat (map snd (filter (\<lambda>(indexWord, ps). includes_str indexWord w \<and> indexWord \<noteq> w) xs)))"
    for xs
    by (induction xs arbitrary: rm) (auto simp: case_prod_beta)
  then show ?thesis
    by (simp add: partialMatches_def partialPostings_def)
qed

lemma scoreAt_word:
  assumes "distinct (map fst idx)"
  shows "scoreAt (partialMatches idx w (exactMatches idx w rm)) k =
     scoreAt rm k
     + (sum_list (map (\<lambda>p. of_nat (relevance p)) (filter (\<lambda>p. resultKey p = k) (exactPostings idx w)))
        + sum_list (map (\<lambda>p. of_nat (relevance p) / 2)
            (filter (\<lambda>p. resultKey p = k) (partialPostings idx w))))"
  by (simp add: partialMatches_alt exactMatches_alt [OF assms] scoreAt_addAll)

lemma keys_word:
  assumes "distinct (map fst idx)"
  shows "fst ` set (partialMatches idx w (exactMatches idx w rm)) =
     fst ` set rm \<union> resultKey ` set (exactPostings idx w @ partialPostings idx w)"
  by (simp add: partialMatches_alt exactMatches_alt [OF assms] keys_addAll Un_assoc image_Un)

lemma keyed_word:
  assumes "distinct (map fst idx)" and "keyed rm"
  shows "keyed (partialMatches idx w (exactMatches idx w rm))"
  by (simp add: partialMatches_alt exactMatches_alt [OF assms(1)] keyed_addAll assms(2))

lemma scoreAt_words:
  assumes "distinct (map fst idx)"
  shows "scoreAt (foldl (\<lambda>rm word. partialMatches idx word (exactMatches idx word rm)) rm ws) k =
     scoreAt rm k
     + sum_list (map (\<lambda>w.
         sum_list (map (\<lambda>p. of_nat (relevance p)) (filter (\<lambda>p. resultKey p = k) (exactPostings idx w)))
         + sum_list (map (\<lambda>p. of_nat (relevance p) / 2)
            (filter (\<lambda>p. resultKey p = k) (partialPostings idx w)))) ws)"
  by (induction ws arbitrary: rm) (simp_all add: scoreAt_word [OF assms] add.assoc)

lemma keys_words:
  assumes "distinct (map fst idx)"
  shows "fst ` set (foldl (\<lambda>rm word. partialMatches idx word (exactMatches idx word rm)) rm ws) =
     fst ` set rm \<union> resultKey ` set (matchedPostings idx ws)"
  by (induction ws arbitrary: rm)
    (simp_all add: keys_word [OF assms] matchedPostings_def Un_assoc image_Un)

lemma keyed_words:
  assumes "distinct (map fst idx)" and "keyed rm"
  shows "keyed (foldl (\<lambda>rm word. partialMatches idx word (exactMatches idx word rm)) rm ws)"
  using assms(2) by (induction ws arbitrary: rm) (simp_all add: keyed_word [OF assms(1)])

lemma keyed_Nil: "keyed []"
  by (simp add: keyed_def)

lemma scoreAt_Nil: "scoreAt [] k = 0"
  by (simp add: scoreAt_def)

lemma keyed_collectResults: "distinct (map fst idx) \<Longrightarrow> keyed (collectResults idx ws)"
  unfolding collectResults_def by (rule keyed_words [OF _ keyed_Nil])

lemma keys_collectResults:
  "distinct (map fst idx) \<Longrightarrow>
   fst ` set (collectResults idx ws) = resultKey ` set (matchedPostings idx ws)"
  by (simp add: collectResults_def keys_words)

lemma entry_key: "keyed rm \<Longrightarrow> (k, e) \<in> set rm \<Longrightarrow> resultKey (doc e) = k"
  by (auto simp: keyed_def list_all_iff)

lemma entry_scoreAt: "keyed rm \<Longrightarrow> (k, e) \<in> set rm \<Longrightarrow> scoreAt rm k = score e"
  by (simp add: keyed_def scoreAt_def)

lemma score_collectResults:
  assumes "distinct (map fst idx)" and "e \<in> snd ` set (collectResults idx ws)"
  shows "score e = specScore idx ws (docRef (doc e))"
proof -
  from assms(2) obtain k where ke: "(k, e) \<in> set (collectResults idx ws)"
    by auto
  have kd: "keyed (collectResults idx ws)"
    by (rule keyed_collectResults [OF assms(1)])
  from entry_key [OF kd ke] have k: "k = resultKey (doc e)" by simp
  have "score e = scoreAt (collectResults idx ws) k"
    by (simp add: entry_scoreAt [OF kd ke])
  also have "\<dots> = specScore idx ws (docRef (doc e))"
    unfolding collectResults_def scoreAt_words [OF assms(1)] scoreAt_Nil
    by (simp add: specScore_def k resultKey_eq_iff)
  finally show ?thesis .
qed

lemma insertBy_insort_key:
  assumes "\<And>x y. (cmp x y \<le> 0) = (k x \<le> k y)"
  shows "insertBy cmp x ys = insort_key k x ys"
  by (induction ys) (simp_all add: assms)

lemma sortBy_sort_key:
  assumes "\<And>x y. (cmp x y \<le> 0) = (k x \<le> k y)"
  shows "sortBy cmp xs = sort_key k xs"
  unfolding sortBy_def sort_key_def
  by (induction xs) (simp_all add: insertBy_insort_key [OF assms])

lemma sortBy_byScoreDesc: "sortBy byScoreDesc xs = sort_key (\<lambda>e. - score e) xs"
  by (rule sortBy_sort_key) (simp add: byScoreDesc_def)

lemma p_type_cases: "p_type p = lit ''article'' \<or> p_type p = lit ''author''"
  by (cases p) simp_all

lemma sorted_desc_take_filter:
  "sorted_wrt (\<lambda>a b. score b \<le> score a) (take n (filter P (sort_key (\<lambda>e. - score e) xs)))"
proof -
  have "sorted (map (\<lambda>e. - score e) (filter P (sort_key (\<lambda>e. - score e) xs)))"
    by (rule sorted_filter) (rule sorted_sort_key)
  then have "sorted_wrt (\<lambda>a b. score b \<le> score a) (filter P (sort_key (\<lambda>e. - score e) xs))"
    by (simp add: sorted_map)
  then show ?thesis
    by (rule sorted_wrt_take)
qed

lemma card_resultKey_docRef: "card (resultKey ` set ps) = card (docRef ` set ps)"
proof -
  have eq: "resultKey ` set ps = (\<lambda>(t, i). t @ lit ''-'' @ i) ` (docRef ` set ps)"
    by (auto simp: resultKey_def docRef_def image_image)
  have "inj_on (\<lambda>(t, i). t @ lit ''-'' @ i) (docRef ` set ps)"
  proof (rule inj_onI)
    fix x y
    assume "x \<in> docRef ` set ps" "y \<in> docRef ` set ps"
      and xy: "(case x of (t, i) \<Rightarrow> t @ lit ''-'' @ i) = (case y of (t, i) \<Rightarrow> t @ lit ''-'' @ i)"
    then obtain p q where "x = docRef p" "y = docRef q" by auto
    with xy resultKey_eq_iff [of p q] show "x = y"
      by (simp add: resultKey_def docRef_def)
  qed
  with eq show ?thesis by (simp add: card_image)
qed

lemma length_collectResults:
  assumes "distinct (map fst idx)"
  shows "length (collectResults idx ws) = length (remdups (map docRef (matchedPostings idx ws)))"
proof -
  have "distinct (map fst (collectResults idx ws))"
    using keyed_collectResults [OF assms] by (simp add: keyed_def)
  then have "length (collectResults idx ws) = card (fst ` set (collectResults idx ws))"
    by (metis distinct_card length_map set_map)
  also have "\<dots> = card (docRef ` set (matchedPostings idx ws))"
    by (simp add: keys_collectResults [OF assms] card_resultKey_docRef)
  also have "\<dots> = length (remdups (map docRef (matchedPostings idx ws)))"
    by (simp add: length_remdups_card_conv)
  finally show ?thesis .
qed

lemma total_searchInIndex:
  "total (searchInIndex idx q) = length (collectResults idx (extractWords q))"
proof -
  let ?xs = "sort_key (\<lambda>e. - score e) (map snd (collectResults idx (extractWords q)))"
  have "filter (\<lambda>r. p_type (doc r) \<noteq> lit ''article'' \<and> p_type (doc r) = lit ''author'') ?xs
          = filter (\<lambda>r. \<not> p_type (doc r) = lit ''article'') ?xs"
    using p_type_cases by (intro filter_cong) auto
  then have "total (searchInIndex idx q)
      = length (filter (\<lambda>r. p_type (doc r) = lit ''article'') ?xs)
        + length (filter (\<lambda>r. \<not> p_type (doc r) = lit ''article'') ?xs)"
    by (simp add: searchInIndex_def Let_def sortBy_byScoreDesc)
  also have "\<dots> = length ?xs"
    by (rule sum_length_filter_compl)
  finally show ?thesis by simp
qed

lemma set_articles:
  "e \<in> set (articles (searchInIndex idx q)) \<Longrightarrow>
   e \<in> snd ` set (collectResults idx (extractWords q)) \<and> p_type (doc e) = lit ''article''"
  by (auto simp: searchInIndex_def Let_def sortBy_byScoreDesc dest!: in_set_takeD)

lemma set_authors:
  "e \<in> set (authors (searchInIndex idx q)) \<Longrightarrow>
   e \<in> snd ` set (collectResults idx (extractWords q)) \<and> p_type (doc e) = lit ''author''"
  by (auto simp: searchInIndex_def Let_def sortBy_byScoreDesc dest!: in_set_takeD)

lemma sorted_articles: "sorted_wrt (\<lambda>a b. score b \<le> score a) (articles (searchInIndex idx q))"
  by (simp add: searchInIndex_def Let_def sortBy_byScoreDesc sorted_desc_take_filter)

lemma sorted_authors: "sorted_wrt (\<lambda>a b. score b \<le> score a) (authors (searchInIndex idx q))"
  by (simp add: searchInIndex_def Let_def sortBy_byScoreDesc sorted_desc_take_filter)

lemma length_slices:
  "length (articles (searchInIndex idx q)) \<le> 20 \<and> length (authors (searchInIndex idx q)) \<le> 10"
  by (simp add: searchInIndex_def Let_def)

lemma keyed_map_fst: "keyed rm \<Longrightarrow> map fst rm = map (\<lambda>x. resultKey (doc (snd x))) rm"
  by (auto simp: keyed_def list_all_iff)

lemma keyed_distinct_docRef:
  assumes "keyed rm"
  shows "distinct (map (\<lambda>e. docRef (doc e)) (map snd rm))"
proof -
  from assms have "distinct (map (\<lambda>x. resultKey (doc (snd x))) rm)"
    using keyed_map_fst [OF assms] by (simp add: keyed_def)
  then have d: "distinct rm" and i: "inj_on (\<lambda>x. resultKey (doc (snd x))) (set rm)"
    by (simp_all add: distinct_map)
  have "inj_on (\<lambda>x. docRef (doc (snd x))) (set rm)"
  proof (rule inj_onI)
    fix x y
    assume "x \<in> set rm" "y \<in> set rm" "docRef (doc (snd x)) = docRef (doc (snd y))"
    with i show "x = y"
      by (auto simp: resultKey_eq_iff [symmetric] dest: inj_onD)
  qed
  with d show ?thesis
    by (simp add: distinct_map comp_def)
qed

lemma docRefs_collectResults:
  assumes "distinct (map fst idx)"
  shows "(\<lambda>e. docRef (doc e)) ` snd ` set (collectResults idx ws)
           = docRef ` set (matchedPostings idx ws)"
proof -
  let ?rm = "collectResults idx ws"
  have kd: "keyed ?rm" by (rule keyed_collectResults [OF assms])
  have keys: "fst ` set ?rm = resultKey ` set (matchedPostings idx ws)"
    by (rule keys_collectResults [OF assms])
  show ?thesis
  proof (intro set_eqI iffI)
    fix d
    assume "d \<in> (\<lambda>e. docRef (doc e)) ` snd ` set ?rm"
    then obtain k e where ke: "(k, e) \<in> set ?rm" and d: "d = docRef (doc e)"
      by auto
    from ke have "k \<in> fst ` set ?rm" by force
    with keys obtain p where p: "p \<in> set (matchedPostings idx ws)" and "k = resultKey p"
      by auto
    with entry_key [OF kd ke] have "docRef (doc e) = docRef p"
      by (simp add: resultKey_eq_iff [symmetric])
    with d p show "d \<in> docRef ` set (matchedPostings idx ws)" by auto
  next
    fix d
    assume "d \<in> docRef ` set (matchedPostings idx ws)"
    then obtain p where p: "p \<in> set (matchedPostings idx ws)" and d: "d = docRef p"
      by auto
    from p keys have "resultKey p \<in> fst ` set ?rm" by auto
    then obtain e where ke: "(resultKey p, e) \<in> set ?rm" by auto
    with entry_key [OF kd ke] have "docRef (doc e) = docRef p"
      by (simp add: resultKey_eq_iff [symmetric])
    with d ke show "d \<in> (\<lambda>e. docRef (doc e)) ` snd ` set ?rm" by force
  qed
qed

lemma length_of_type:
  assumes "distinct (map fst idx)"
  shows "length (filter (\<lambda>e. p_type (doc e) = t) (map snd (collectResults idx ws)))
     = length (remdups (map docRef (filter (\<lambda>p. p_type p = t) (matchedPostings idx ws))))"
proof -
  let ?es = "map snd (collectResults idx ws)"
  let ?g = "\<lambda>e. docRef (doc e)"
  let ?fs = "filter (\<lambda>e. p_type (doc e) = t) ?es"
  have "distinct (map ?g ?es)"
    by (rule keyed_distinct_docRef [OF keyed_collectResults [OF assms]])
  then have dist: "distinct (map ?g ?fs)"
    by (rule distinct_map_filter)
  have "length ?fs = length (map ?g ?fs)"
    by (simp only: length_map)
  also have "\<dots> = card (set (map ?g ?fs))"
    by (rule distinct_card [OF dist, symmetric])
  also have "set (map ?g ?fs) = {d \<in> ?g ` set ?es. fst d = t}"
    by (auto simp: docRef_def)
  also have "?g ` set ?es = docRef ` set (matchedPostings idx ws)"
    using docRefs_collectResults [OF assms, of ws] by simp
  also have "{d \<in> docRef ` set (matchedPostings idx ws). fst d = t}
      = set (map docRef (filter (\<lambda>p. p_type p = t) (matchedPostings idx ws)))"
    by (auto simp: docRef_def)
  also have "card \<dots>
      = length (remdups (map docRef (filter (\<lambda>p. p_type p = t) (matchedPostings idx ws))))"
    by (rule length_remdups_card_conv [symmetric])
  finally show ?thesis .
qed

lemma length_filter_sort_key: "length (filter P (sort_key k xs)) = length (filter P xs)"
  by (simp add: filter_sort)

lemma length_articles:
  assumes "distinct (map fst idx)"
  shows "length (articles (searchInIndex idx q))
     = min 20 (length (remdups (map docRef
         (filter (\<lambda>p. p_type p = lit ''article'') (matchedPostings idx (extractWords q))))))"
proof -
  let ?es = "map snd (collectResults idx (extractWords q))"
  let ?P = "\<lambda>e. p_type (doc e) = lit ''article''"
  have "articles (searchInIndex idx q) = take 20 (filter ?P (sort_key (\<lambda>e. - score e) ?es))"
    by (simp add: searchInIndex_def Let_def sortBy_byScoreDesc)
  then have "length (articles (searchInIndex idx q))
      = min 20 (length (filter ?P (sort_key (\<lambda>e. - score e) ?es)))"
    by (simp only: length_take min.commute)
  also have "\<dots> = min 20 (length (filter ?P ?es))"
    by (simp only: length_filter_sort_key)
  finally show ?thesis
    by (simp only: length_of_type [OF assms])
qed

lemma length_authors:
  assumes "distinct (map fst idx)"
  shows "length (authors (searchInIndex idx q))
     = min 10 (length (remdups (map docRef
         (filter (\<lambda>p. p_type p = lit ''author'') (matchedPostings idx (extractWords q))))))"
proof -
  let ?es = "map snd (collectResults idx (extractWords q))"
  let ?xs = "sort_key (\<lambda>e. - score e) ?es"
  let ?P = "\<lambda>e. p_type (doc e) = lit ''author''"
  have "filter (\<lambda>r. p_type (doc r) \<noteq> lit ''article'' \<and> p_type (doc r) = lit ''author'') ?xs
      = filter ?P ?xs"
    using article_author_distinct by (intro filter_cong) auto
  moreover have "authors (searchInIndex idx q)
      = take 10 (filter (\<lambda>r. p_type (doc r) \<noteq> lit ''article'' \<and> p_type (doc r) = lit ''author'') ?xs)"
    by (simp add: searchInIndex_def Let_def sortBy_byScoreDesc)
  ultimately have "authors (searchInIndex idx q) = take 10 (filter ?P ?xs)"
    by (simp only:)
  then have "length (authors (searchInIndex idx q)) = min 10 (length (filter ?P ?xs))"
    by (simp only: length_take min.commute)
  also have "\<dots> = min 10 (length (filter ?P ?es))"
    by (simp only: length_filter_sort_key)
  finally show ?thesis
    by (simp only: length_of_type [OF assms])
qed

text \<open>
  C1. For an index with one entry per token (as every built index is, lemma
  \<open>distinct_built\<close>) and any query, the score accumulated for a document, and carried by
  every returned article or author, is the sum over the query tokens, repeated ones
  included, of the full weight of the document's postings under the equal index token plus
  half the weight of its postings under the other index tokens containing the query token;
  the documents accumulated are exactly those of the postings so matched.
\<close>

theorem searchInIndex_scores:
  assumes "distinct (map fst idx)"
  shows "(e \<in> snd ` set (collectResults idx (extractWords q)) \<longrightarrow>
            score e = specScore idx (extractWords q) (docRef (doc e)))
         \<and> (e \<in> set (articles (searchInIndex idx q)) \<union> set (authors (searchInIndex idx q)) \<longrightarrow>
            score e = specScore idx (extractWords q) (docRef (doc e)))
         \<and> (\<lambda>e. docRef (doc e)) ` snd ` set (collectResults idx (extractWords q))
             = docRef ` set (matchedPostings idx (extractWords q))"
  using score_collectResults [OF assms, of e "extractWords q"]
    docRefs_collectResults [OF assms, of "extractWords q"]
    set_articles [of e idx q] set_authors [of e idx q]
  by blast

theorem searchInIndex_scores_witness:
  "distinct (map fst (searchIndex (buildSearchIndex toLowerCase (newManager [])
        [\<lparr>art_id = lit ''a1'', title = lit ''history'', lead = [], content = [], tags = [],
           category = None, status = Published, publishedAt = None\<rparr>,
         \<lparr>art_id = lit ''a2'', title = lit ''prehistory'', lead = [], content = [], tags = [],
           category = None, status = Published, publishedAt = None\<rparr>] [])))
   \<and> \<lparr>doc = ArticlePosting (lit ''a2'') (lit ''prehistory'') [] None None 4, score = 2\<rparr>
       \<in> set (articles (searchInIndex (searchIndex (buildSearchIndex toLowerCase (newManager [])
        [\<lparr>art_id = lit ''a1'', title = lit ''history'', lead = [], content = [], tags = [],
           category = None, status = Published, publishedAt = None\<rparr>,
         \<lparr>art_id = lit ''a2'', title = lit ''prehistory'', lead = [], content = [], tags = [],
           category = None, status = Published, publishedAt = None\<rparr>] [])) (lit ''history'')))
   \<and> score (\<lparr>doc = ArticlePosting (lit ''a2'') (lit ''prehistory'') [] None None 4, score = 2\<rparr>)
       = specScore (searchIndex (buildSearchIndex toLowerCase (newManager [])
        [\<lparr>art_id = lit ''a1'', title = lit ''history'', lead = [], content = [], tags = [],
           category = None, status = Published, publishedAt = None\<rparr>,
         \<lparr>art_id = lit ''a2'', title = lit ''prehistory'', lead = [], content = [], tags = [],
           category = None, status = Published, publishedAt = None\<rparr>] [])) (extractWords (lit ''history''))
           (docRef (doc (\<lparr>doc = ArticlePosting (lit ''a2'') (lit ''prehistory'') [] None None 4, score = 2\<rparr>)))"
proof -
  have d: "distinct (map fst (searchIndex (buildSearchIndex toLowerCase (newManager [])
        [\<lparr>art_id = lit ''a1'', title = lit ''history'', lead = [], content = [], tags = [],
           category = None, status = Published, publishedAt = None\<rparr>,
         \<lparr>art_id = lit ''a2'', title = lit ''prehistory'', lead = [], content = [], tags = [],
           category = None, status = Published, publishedAt = None\<rparr>] [])))"
    by (rule distinct_built)
  have h: "\<lparr>doc = ArticlePosting (lit ''a2'') (lit ''prehistory'') [] None None 4, score = 2\<rparr>
       \<in> set (articles (searchInIndex (searchIndex (buildSearchIndex toLowerCase (newManager [])
        [\<lparr>art_id = lit ''a1'', title = lit ''history'', lead = [], content = [], tags = [],
           category = None, status = Published, publishedAt = None\<rparr>,
         \<lparr>art_id = lit ''a2'', title = lit ''prehistory'', lead = [], content = [], tags = [],
           category = None, status = Published, publishedAt = None\<rparr>] [])) (lit ''history'')))"
    by code_simp
  from searchInIndex_scores [OF d, of "\<lparr>doc = ArticlePosting (lit ''a2'') (lit ''prehistory'') [] None None 4, score = 2\<rparr>" "lit ''history''"] d h
  show ?thesis
    by blast
qed

lemma docs_addScore:
  assumes "distinct (map fst rm)" and "\<forall>x\<in>set rm. doc (snd x) \<in> A" and "p \<in> A"
  shows "\<forall>x\<in>set (addScore d rm p). doc (snd x) \<in> A"
proof
  fix x
  assume x: "x \<in> set (addScore d rm p)"
  obtain k e where ke: "x = (k, e)" by (cases x)
  have "distinct (map fst (addScore d rm p))"
    by (rule distinct_addScore [OF assms(1)])
  with x ke have "map_of (addScore d rm p) k = Some e"
    by simp
  then have "doc e = p \<or> (\<exists>e'. map_of rm k = Some e' \<and> doc e = doc e')"
    by (auto simp: map_of_addScore split: if_splits option.splits)
  then show "doc (snd x) \<in> A"
  proof
    assume "doc e = p"
    with assms(3) ke show ?thesis by simp
  next
    assume "\<exists>e'. map_of rm k = Some e' \<and> doc e = doc e'"
    then obtain e' where "map_of rm k = Some e'" and d: "doc e = doc e'"
      by blast
    then have "(k, e') \<in> set rm"
      by (auto dest: map_of_SomeD)
    with assms(2) d ke show ?thesis by force
  qed
qed

lemma docs_addAll:
  assumes "distinct (map fst rm)" and "\<forall>x\<in>set rm. doc (snd x) \<in> A" and "set ps \<subseteq> A"
  shows "\<forall>x\<in>set (foldl (\<lambda>m p. addScore (f p) m p) rm ps). doc (snd x) \<in> A"
  using assms
proof (induction ps arbitrary: rm)
  case Nil
  then show ?case by simp
next
  case (Cons p ps)
  have "\<forall>x\<in>set (foldl (\<lambda>m p. addScore (f p) m p) (addScore (f p) rm p) ps). doc (snd x) \<in> A"
  proof (rule Cons.IH)
    show "distinct (map fst (addScore (f p) rm p))"
      by (rule distinct_addScore [OF Cons.prems(1)])
    show "\<forall>x\<in>set (addScore (f p) rm p). doc (snd x) \<in> A"
      using Cons.prems by (intro docs_addScore) auto
    show "set ps \<subseteq> A"
      using Cons.prems(3) by simp
  qed
  then show ?case by simp
qed

lemma distinct_addAll:
  "distinct (map fst rm) \<Longrightarrow> distinct (map fst (foldl (\<lambda>m p. addScore (f p) m p) rm ps))"
  by (induction ps arbitrary: rm) (simp_all add: distinct_addScore)

lemma docs_word:
  assumes i: "distinct (map fst idx)" and r: "distinct (map fst rm)"
    and a: "\<forall>x\<in>set rm. doc (snd x) \<in> A"
    and e: "set (exactPostings idx w) \<subseteq> A" and pp: "set (partialPostings idx w) \<subseteq> A"
  shows "\<forall>x\<in>set (partialMatches idx w (exactMatches idx w rm)). doc (snd x) \<in> A"
  unfolding partialMatches_alt exactMatches_alt [OF i]
  by (intro docs_addAll distinct_addAll r a e pp)

lemma docs_words:
  assumes i: "distinct (map fst idx)" and "keyed rm"
    and "\<forall>x\<in>set rm. doc (snd x) \<in> A"
    and "set (matchedPostings idx ws) \<subseteq> A"
  shows "\<forall>x\<in>set (foldl (\<lambda>rm word. partialMatches idx word (exactMatches idx word rm)) rm ws).
           doc (snd x) \<in> A"
  using assms(2-)
proof (induction ws arbitrary: rm)
  case Nil
  then show ?case by simp
next
  case (Cons w ws)
  let ?rm = "partialMatches idx w (exactMatches idx w rm)"
  have "\<forall>x\<in>set (foldl (\<lambda>rm word. partialMatches idx word (exactMatches idx word rm)) ?rm ws).
           doc (snd x) \<in> A"
  proof (rule Cons.IH)
    show "keyed ?rm"
      by (rule keyed_word [OF i Cons.prems(1)])
    show "\<forall>x\<in>set ?rm. doc (snd x) \<in> A"
      using Cons.prems by (intro docs_word [OF i]) (auto simp: keyed_def matchedPostings_def)
    show "set (matchedPostings idx ws) \<subseteq> A"
      using Cons.prems(3) by (auto simp: matchedPostings_def)
  qed
  then show ?case by simp
qed

lemma docs_collectResults:
  assumes "distinct (map fst idx)" and "e \<in> snd ` set (collectResults idx ws)"
  shows "doc e \<in> set (matchedPostings idx ws)"
proof -
  have "\<forall>x\<in>set (collectResults idx ws). doc (snd x) \<in> set (matchedPostings idx ws)"
    unfolding collectResults_def
    by (rule docs_words [OF assms(1) keyed_Nil]) simp_all
  with assms(2) show ?thesis by auto
qed

lemma sorted_take_rest:
  assumes "sorted_wrt R xs" and "x \<in> set (take n xs)" and "y \<in> set xs" and "y \<notin> set (take n xs)"
  shows "R x y"
proof -
  from assms(3,4) have "y \<in> set (drop n xs)"
    by (metis Un_iff append_take_drop_id set_append)
  moreover from assms(1) have "sorted_wrt R (take n xs @ drop n xs)"
    by simp
  ultimately show ?thesis
    using assms(2) by (auto simp only: sorted_wrt_append)
qed

lemma distinct_docRef_part:
  assumes "distinct (map fst idx)"
  shows "distinct (map (\<lambda>e. docRef (doc e))
     (take n (filter P (sort_key (\<lambda>e. - score e) (map snd (collectResults idx ws))))))"
proof -
  let ?es = "map snd (collectResults idx ws)"
  let ?g = "\<lambda>e. docRef (doc e)"
  have d: "distinct (map ?g ?es)"
    by (rule keyed_distinct_docRef [OF keyed_collectResults [OF assms]])
  then have "distinct ?es" and "inj_on ?g (set ?es)"
    by (simp_all only: distinct_map)
  then have "distinct (map ?g (sort_key (\<lambda>e. - score e) ?es))"
    by (simp only: distinct_map distinct_sort set_sort)
  then have "distinct (map ?g (filter P (sort_key (\<lambda>e. - score e) ?es)))"
    by (rule distinct_map_filter)
  then show ?thesis
    by (simp only: take_map [symmetric] distinct_take)
qed

lemma top_slice:
  assumes i: "distinct (map fst idx)"
    and p: "p \<in> set (matchedPostings idx ws)" and q: "Q (p_type p)"
    and n: "docRef p \<notin> (\<lambda>e. docRef (doc e)) `
              set (take n (filter (\<lambda>r. Q (p_type (doc r)))
                 (sort_key (\<lambda>e. - score e) (map snd (collectResults idx ws)))))"
    and e: "e \<in> set (take n (filter (\<lambda>r. Q (p_type (doc r)))
                 (sort_key (\<lambda>e. - score e) (map snd (collectResults idx ws)))))"
  shows "specScore idx ws (docRef p) \<le> score e"
proof -
  let ?es = "map snd (collectResults idx ws)"
  let ?full = "filter (\<lambda>r. Q (p_type (doc r))) (sort_key (\<lambda>e. - score e) ?es)"
  from p have "docRef p \<in> (\<lambda>e. docRef (doc e)) ` snd ` set (collectResults idx ws)"
    by (simp only: docRefs_collectResults [OF i]) simp
  then obtain e' where e': "e' \<in> snd ` set (collectResults idx ws)"
    and r: "docRef (doc e') = docRef p"
    by (metis (no_types, lifting) imageE)
  from r q have "Q (p_type (doc e'))"
    by (simp add: docRef_def)
  with e' have full: "e' \<in> set ?full"
    by simp
  from n r have rest: "e' \<notin> set (take n ?full)"
    by force
  have "sorted (map (\<lambda>e. - score e) ?full)"
    by (rule sorted_filter) (rule sorted_sort_key)
  then have "sorted_wrt (\<lambda>a b. score b \<le> score a) ?full"
    by (simp add: sorted_map)
  from sorted_take_rest [OF this e full rest] have "score e' \<le> score e" .
  moreover have "score e' = specScore idx ws (docRef p)"
    using score_collectResults [OF i e'] r by simp
  ultimately show ?thesis by simp
qed

lemma top_articles:
  assumes "distinct (map fst idx)"
    and "p \<in> set (matchedPostings idx (extractWords q))" and "p_type p = lit ''article''"
    and "docRef p \<notin> (\<lambda>e. docRef (doc e)) ` set (articles (searchInIndex idx q))"
    and "e \<in> set (articles (searchInIndex idx q))"
  shows "specScore idx (extractWords q) (docRef p) \<le> score e"
proof (rule top_slice [where Q = "\<lambda>t. t = lit ''article''" and n = 20, OF assms(1,2)])
  show "p_type p = lit ''article''" by (rule assms(3))
  show "docRef p \<notin> (\<lambda>e. docRef (doc e)) `
      set (take 20 (filter (\<lambda>r. p_type (doc r) = lit ''article'')
         (sort_key (\<lambda>e. - score e) (map snd (collectResults idx (extractWords q))))))"
    using assms(4) by (simp add: searchInIndex_def Let_def sortBy_byScoreDesc)
  show "e \<in> set (take 20 (filter (\<lambda>r. p_type (doc r) = lit ''article'')
         (sort_key (\<lambda>e. - score e) (map snd (collectResults idx (extractWords q))))))"
    using assms(5) by (simp add: searchInIndex_def Let_def sortBy_byScoreDesc)
qed

lemma top_authors:
  assumes "distinct (map fst idx)"
    and "p \<in> set (matchedPostings idx (extractWords q))" and "p_type p = lit ''author''"
    and "docRef p \<notin> (\<lambda>e. docRef (doc e)) ` set (authors (searchInIndex idx q))"
    and "e \<in> set (authors (searchInIndex idx q))"
  shows "specScore idx (extractWords q) (docRef p) \<le> score e"
proof (rule top_slice [where Q = "\<lambda>t. t \<noteq> lit ''article'' \<and> t = lit ''author''" and n = 10,
      OF assms(1,2)])
  show "p_type p \<noteq> lit ''article'' \<and> p_type p = lit ''author''"
    using assms(3) by (simp add: lit_def)
  show "docRef p \<notin> (\<lambda>e. docRef (doc e)) `
      set (take 10 (filter (\<lambda>r. p_type (doc r) \<noteq> lit ''article'' \<and> p_type (doc r) = lit ''author'')
         (sort_key (\<lambda>e. - score e) (map snd (collectResults idx (extractWords q))))))"
    using assms(4) by (simp add: searchInIndex_def Let_def sortBy_byScoreDesc)
  show "e \<in> set (take 10 (filter (\<lambda>r. p_type (doc r) \<noteq> lit ''article'' \<and> p_type (doc r) = lit ''author'')
         (sort_key (\<lambda>e. - score e) (map snd (collectResults idx (extractWords q))))))"
    using assms(5) by (simp add: searchInIndex_def Let_def sortBy_byScoreDesc)
qed

lemma distinct_returned_articles:
  "distinct (map fst idx) \<Longrightarrow>
   distinct (map (\<lambda>e. docRef (doc e)) (articles (searchInIndex idx q)))"
  by (simp add: searchInIndex_def Let_def sortBy_byScoreDesc distinct_docRef_part)

lemma distinct_returned_authors:
  "distinct (map fst idx) \<Longrightarrow>
   distinct (map (\<lambda>e. docRef (doc e)) (authors (searchInIndex idx q)))"
  by (simp add: searchInIndex_def Let_def sortBy_byScoreDesc distinct_docRef_part)

lemma returned_entry:
  assumes "distinct (map fst idx)"
    and "e \<in> set (articles (searchInIndex idx q)) \<or> e \<in> set (authors (searchInIndex idx q))"
  shows "doc e \<in> set (matchedPostings idx (extractWords q))
         \<and> score e = specScore idx (extractWords q) (docRef (doc e))"
proof -
  from assms(2) have "e \<in> snd ` set (collectResults idx (extractWords q))"
    using set_articles set_authors by blast
  then show ?thesis
    using docs_collectResults [OF assms(1)] score_collectResults [OF assms(1)] by blast
qed

text \<open>
  C2. For an index with one entry per token and any query, the result holds at most 20
  articles and at most 10 authors, each list in descending order of score and of its own
  type; the number of articles returned is the number of distinct matched article documents
  capped at 20, likewise for authors with 10, and the total is the number of distinct
  matched documents, whatever was cut off. No document is returned twice; every returned
  entry is one of the matched postings and carries the score of its document; and the
  entries returned are the best ones: a matched article that is not among the returned
  articles scores no more than any returned article, and likewise for authors.
\<close>

theorem searchInIndex_ranked_truncated:
  assumes "distinct (map fst idx)"
  shows "length (articles (searchInIndex idx q)) \<le> 20
         \<and> length (authors (searchInIndex idx q)) \<le> 10
         \<and> sorted_wrt (\<lambda>a b. score b \<le> score a) (articles (searchInIndex idx q))
         \<and> sorted_wrt (\<lambda>a b. score b \<le> score a) (authors (searchInIndex idx q))
         \<and> (\<forall>e\<in>set (articles (searchInIndex idx q)). p_type (doc e) = lit ''article'')
         \<and> (\<forall>e\<in>set (authors (searchInIndex idx q)). p_type (doc e) = lit ''author'')
         \<and> length (articles (searchInIndex idx q))
             = min 20 (length (remdups (map docRef
                 (filter (\<lambda>p. p_type p = lit ''article'')
                    (matchedPostings idx (extractWords q))))))
         \<and> length (authors (searchInIndex idx q))
             = min 10 (length (remdups (map docRef
                 (filter (\<lambda>p. p_type p = lit ''author'')
                    (matchedPostings idx (extractWords q))))))
         \<and> total (searchInIndex idx q)
             = length (remdups (map docRef (matchedPostings idx (extractWords q))))
         \<and> distinct (map (\<lambda>e. docRef (doc e)) (articles (searchInIndex idx q)))
         \<and> distinct (map (\<lambda>e. docRef (doc e)) (authors (searchInIndex idx q)))
         \<and> (\<forall>e\<in>set (articles (searchInIndex idx q)) \<union> set (authors (searchInIndex idx q)).
               doc e \<in> set (matchedPostings idx (extractWords q))
               \<and> score e = specScore idx (extractWords q) (docRef (doc e)))
         \<and> (\<forall>p\<in>set (matchedPostings idx (extractWords q)).
               \<forall>e\<in>set (articles (searchInIndex idx q)).
                 p_type p = lit ''article''
                 \<longrightarrow> docRef p \<notin> (\<lambda>e. docRef (doc e)) ` set (articles (searchInIndex idx q))
                 \<longrightarrow> specScore idx (extractWords q) (docRef p) \<le> score e)
         \<and> (\<forall>p\<in>set (matchedPostings idx (extractWords q)).
               \<forall>e\<in>set (authors (searchInIndex idx q)).
                 p_type p = lit ''author''
                 \<longrightarrow> docRef p \<notin> (\<lambda>e. docRef (doc e)) ` set (authors (searchInIndex idx q))
                 \<longrightarrow> specScore idx (extractWords q) (docRef p) \<le> score e)"
proof -
  have "total (searchInIndex idx q)
      = length (remdups (map docRef (matchedPostings idx (extractWords q))))"
    by (simp only: total_searchInIndex length_collectResults [OF assms])
  moreover have "\<forall>e\<in>set (articles (searchInIndex idx q)). p_type (doc e) = lit ''article''"
    using set_articles by blast
  moreover have "\<forall>e\<in>set (authors (searchInIndex idx q)). p_type (doc e) = lit ''author''"
    using set_authors by blast
  moreover have "\<forall>e\<in>set (articles (searchInIndex idx q)) \<union> set (authors (searchInIndex idx q)).
               doc e \<in> set (matchedPostings idx (extractWords q))
               \<and> score e = specScore idx (extractWords q) (docRef (doc e))"
    using returned_entry [OF assms] by blast
  moreover have "\<forall>p\<in>set (matchedPostings idx (extractWords q)).
               \<forall>e\<in>set (articles (searchInIndex idx q)).
                 p_type p = lit ''article''
                 \<longrightarrow> docRef p \<notin> (\<lambda>e. docRef (doc e)) ` set (articles (searchInIndex idx q))
                 \<longrightarrow> specScore idx (extractWords q) (docRef p) \<le> score e"
    using top_articles [OF assms] by blast
  moreover have "\<forall>p\<in>set (matchedPostings idx (extractWords q)).
               \<forall>e\<in>set (authors (searchInIndex idx q)).
                 p_type p = lit ''author''
                 \<longrightarrow> docRef p \<notin> (\<lambda>e. docRef (doc e)) ` set (authors (searchInIndex idx q))
                 \<longrightarrow> specScore idx (extractWords q) (docRef p) \<le> score e"
    using top_authors [OF assms] by blast
  moreover note length_slices [of idx q] sorted_articles [of idx q] sorted_authors [of idx q]
    length_articles [OF assms, of q] length_authors [OF assms, of q]
    distinct_returned_articles [OF assms, of q] distinct_returned_authors [OF assms, of q]
  ultimately show ?thesis
    by blast
qed

text \<open>
  Twenty articles that hold the query word in the body only, followed by one that holds it
  in the title: the last one indexed is returned first with score 4, the article cut off is
  one of those of score 1, and the total is 21.
\<close>

theorem searchInIndex_ranked_truncated_witness:
  "distinct (map fst (searchIndex (buildSearchIndex toLowerCase (newManager [])
        (map (\<lambda>i. \<lparr>art_id = [i], title = [], lead = [], content = lit ''go'', tags = [],
                     category = None, status = Published, publishedAt = None\<rparr>) [1..20]
         @ [\<lparr>art_id = [21], title = lit ''go'', lead = [], content = [], tags = [],
              category = None, status = Published, publishedAt = None\<rparr>]) [])))
   \<and> length (articles (searchInIndex (searchIndex (buildSearchIndex toLowerCase (newManager [])
        (map (\<lambda>i. \<lparr>art_id = [i], title = [], lead = [], content = lit ''go'', tags = [],
                     category = None, status = Published, publishedAt = None\<rparr>) [1..20]
         @ [\<lparr>art_id = [21], title = lit ''go'', lead = [], content = [], tags = [],
              category = None, status = Published, publishedAt = None\<rparr>]) [])) (lit ''go''))) = 20
   \<and> total (searchInIndex (searchIndex (buildSearchIndex toLowerCase (newManager [])
        (map (\<lambda>i. \<lparr>art_id = [i], title = [], lead = [], content = lit ''go'', tags = [],
                     category = None, status = Published, publishedAt = None\<rparr>) [1..20]
         @ [\<lparr>art_id = [21], title = lit ''go'', lead = [], content = [], tags = [],
              category = None, status = Published, publishedAt = None\<rparr>]) [])) (lit ''go'')) = 21
   \<and> map (\<lambda>e. (p_id (doc e), score e)) (articles (searchInIndex (searchIndex (buildSearchIndex toLowerCase (newManager [])
        (map (\<lambda>i. \<lparr>art_id = [i], title = [], lead = [], content = lit ''go'', tags = [],
                     category = None, status = Published, publishedAt = None\<rparr>) [1..20]
         @ [\<lparr>art_id = [21], title = lit ''go'', lead = [], content = [], tags = [],
              category = None, status = Published, publishedAt = None\<rparr>]) [])) (lit ''go'')))
       = [([21], 4), ([1], 1), ([2], 1), ([3], 1), ([4], 1), ([5], 1), ([6], 1), ([7], 1),
          ([8], 1), ([9], 1), ([10], 1), ([11], 1), ([12], 1), ([13], 1), ([14], 1),
          ([15], 1), ([16], 1), ([17], 1), ([18], 1), ([19], 1)]
   \<and> specScore (searchIndex (buildSearchIndex toLowerCase (newManager [])
        (map (\<lambda>i. \<lparr>art_id = [i], title = [], lead = [], content = lit ''go'', tags = [],
                     category = None, status = Published, publishedAt = None\<rparr>) [1..20]
         @ [\<lparr>art_id = [21], title = lit ''go'', lead = [], content = [], tags = [],
              category = None, status = Published, publishedAt = None\<rparr>]) [])) (extractWords (lit ''go'')) (lit ''article'', [20]) = 1"
proof -
  have d: "distinct (map fst (searchIndex (buildSearchIndex toLowerCase (newManager [])
        (map (\<lambda>i. \<lparr>art_id = [i], title = [], lead = [], content = lit ''go'', tags = [],
                     category = None, status = Published, publishedAt = None\<rparr>) [1..20]
         @ [\<lparr>art_id = [21], title = lit ''go'', lead = [], content = [], tags = [],
              category = None, status = Published, publishedAt = None\<rparr>]) [])))"
    by (rule distinct_built)
  have m: "length (remdups (map docRef (matchedPostings (searchIndex (buildSearchIndex toLowerCase (newManager [])
        (map (\<lambda>i. \<lparr>art_id = [i], title = [], lead = [], content = lit ''go'', tags = [],
                     category = None, status = Published, publishedAt = None\<rparr>) [1..20]
         @ [\<lparr>art_id = [21], title = lit ''go'', lead = [], content = [], tags = [],
              category = None, status = Published, publishedAt = None\<rparr>]) []))
      (extractWords (lit ''go''))))) = 21"
    by code_simp
  have a: "length (remdups (map docRef (filter (\<lambda>p. p_type p = lit ''article'')
      (matchedPostings (searchIndex (buildSearchIndex toLowerCase (newManager [])
        (map (\<lambda>i. \<lparr>art_id = [i], title = [], lead = [], content = lit ''go'', tags = [],
                     category = None, status = Published, publishedAt = None\<rparr>) [1..20]
         @ [\<lparr>art_id = [21], title = lit ''go'', lead = [], content = [], tags = [],
              category = None, status = Published, publishedAt = None\<rparr>]) []))
      (extractWords (lit ''go'')))))) = 21"
    by code_simp
  have r: "map (\<lambda>e. (p_id (doc e), score e)) (articles (searchInIndex (searchIndex (buildSearchIndex toLowerCase (newManager [])
        (map (\<lambda>i. \<lparr>art_id = [i], title = [], lead = [], content = lit ''go'', tags = [],
                     category = None, status = Published, publishedAt = None\<rparr>) [1..20]
         @ [\<lparr>art_id = [21], title = lit ''go'', lead = [], content = [], tags = [],
              category = None, status = Published, publishedAt = None\<rparr>]) [])) (lit ''go'')))
       = [([21], 4), ([1], 1), ([2], 1), ([3], 1), ([4], 1), ([5], 1), ([6], 1), ([7], 1),
          ([8], 1), ([9], 1), ([10], 1), ([11], 1), ([12], 1), ([13], 1), ([14], 1),
          ([15], 1), ([16], 1), ([17], 1), ([18], 1), ([19], 1)]"
    by code_simp
  have s: "specScore (searchIndex (buildSearchIndex toLowerCase (newManager [])
        (map (\<lambda>i. \<lparr>art_id = [i], title = [], lead = [], content = lit ''go'', tags = [],
                     category = None, status = Published, publishedAt = None\<rparr>) [1..20]
         @ [\<lparr>art_id = [21], title = lit ''go'', lead = [], content = [], tags = [],
              category = None, status = Published, publishedAt = None\<rparr>]) [])) (extractWords (lit ''go'')) (lit ''article'', [20]) = 1"
    by code_simp
  from searchInIndex_ranked_truncated [OF d, of "lit ''go''"] d r s
  show ?thesis
    by (simp only: m a) simp
qed

section \<open>Properties of the suggestions\<close>































text \<open>
  The other way the tag can be missing: six tags carried five times each; the five kept by
  \<open>getPopularTags\<close> are the first five met.
\<close>

lemma popular_tags_tie_example:
  "getPopularTags toLowerCase
      (map (\<lambda>i. \<lparr>art_id = [i], title = [], lead = [], content = [],
                   tags = [lit ''aa'', lit ''bb'', lit ''cc'', lit ''dd'', lit ''ee'',
                           [1085, 1072, 1091, 1082, 1072]],
                   category = None, status = Published, publishedAt = None\<rparr>) [1..5])
     = [lit ''aa'', lit ''bb'', lit ''cc'', lit ''dd'', lit ''ee'']"
  by code_simp

end
